theory Spec2Isabelle
  imports Main "HOL-Library.Code_Target_Nat"
begin

section \<open>The Aeron properties-file parser (aeron\_properties\_util.c)\<close>

text \<open>
  A shallow embedding of \<^verbatim>\<open>aeron_properties_util.c\<close>. C strings are
  \<open>char list\<close>s holding the bytes before the terminating null; reading a string at
  the index equal to its length yields the null byte. The fixed-size array
  \<^verbatim>\<open>property_str\<close> is a \<open>char list\<close> whose length is the array's size, so
  \<^verbatim>\<open>sizeof(state->property_str)\<close> is \<open>length (property_str s)\<close>. Every
  store into the array is checked: an index outside the array has no defined
  behaviour in C and ends the run of the model with \<open>Fault\<close>.
\<close>

subsection \<open>Bytes\<close>

abbreviation NUL :: char where "NUL \<equiv> CHR 0x00"
abbreviation TAB :: char where "TAB \<equiv> CHR 0x09"
abbreviation SPC :: char where "SPC \<equiv> CHR 0x20"
abbreviation BSL :: char where "BSL \<equiv> CHR 0x5C"
abbreviation LF :: char where "LF \<equiv> CHR 0x0A"
abbreviation CR :: char where "CR \<equiv> CHR 0x0D"

definition is_blank :: "char \<Rightarrow> bool" where
  "is_blank c \<longleftrightarrow> c = SPC \<or> c = TAB"

text \<open>\<^verbatim>\<open>line[i]\<close> for a null-terminated string: the terminator sits at index
  \<open>length line\<close>.\<close>

definition line_at :: "char list \<Rightarrow> nat \<Rightarrow> char" where
  "line_at line i = (if i < length line then line ! i else NUL)"

text \<open>\<^verbatim>\<open>length - 1\<close> on \<^verbatim>\<open>size_t\<close> (64 bits): it wraps at zero.\<close>

definition size_pred :: "nat \<Rightarrow> nat" where
  "size_pred n = (if n = 0 then 2 ^ 64 - 1 else n - 1)"

subsection \<open>The whitespace scanner\<close>

text \<open>
  \<^verbatim>\<open>for (size_t i = start; i <= end; i++)\<close> over the bytes from \<open>start\<close> on;
  the last argument is the rest of the string from index \<open>i\<close>. When the rest is
  empty the byte read is the terminator, and the scan answers \<open>-1\<close>.
\<close>

fun scan_non_whitespace :: "nat \<Rightarrow> nat \<Rightarrow> char list \<Rightarrow> int" where
  "scan_non_whitespace i end [] = - 1"
| "scan_non_whitespace i end (c # cs) =
     (if i \<le> end then
        (if c = SPC \<or> c = TAB then scan_non_whitespace (Suc i) end cs
         else if c = NUL then - 1 else int i)
      else - 1)"

definition aeron_next_non_whitespace :: "char list \<Rightarrow> nat \<Rightarrow> nat \<Rightarrow> int" where
  "aeron_next_non_whitespace buffer start end =
     scan_non_whitespace start end (drop start buffer)"

subsection \<open>The parser state\<close>

text \<open>
  Modelled from the spec: the struct \<^verbatim>\<open>aeron_properties_parser_state_t\<close> is
  declared in the header, which is not part of the sources at hand. The spec's
  data model gives it a byte buffer of fixed capacity and the two offsets; the
  code reads and writes them as \<^verbatim>\<open>property_str\<close>, \<^verbatim>\<open>name_end\<close> and
  \<^verbatim>\<open>value_end\<close>, compares the offsets with \<open>0\<close> and counts
  \<^verbatim>\<open>name_end\<close> down, so they are integers here. All values stay far below the range of a
  C \<^verbatim>\<open>int\<close> as long as the capacity does.
\<close>

record parser_state =
  property_str :: "char list"
  name_end :: int
  value_end :: int

text \<open>
  Modelled from the spec: \<^verbatim>\<open>aeron_properties_parse_init\<close> is declared in the
  header, which is not part of the sources at hand. The spec says that a reset
  returns the parser to the zero state, in which both offsets are zero.
\<close>

definition aeron_properties_parse_init :: "parser_state \<Rightarrow> parser_state" where
  "aeron_properties_parse_init s = s\<lparr>name_end := 0, value_end := 0\<rparr>"

datatype parse_error = LineTooLong | MalformedLine

text \<open>
  What a call does: it either runs into an access outside \<^verbatim>\<open>property_str\<close>
  (\<open>Fault\<close>, with the index of the store, or the offset of a string handed to
  the handler that is not terminated inside the array), or the handler it calls does not
  return (\<open>HandlerFault\<close>), or it returns a code, the error it recorded with
  \<^verbatim>\<open>aeron_set_err\<close> (if any), the state it leaves, the handler's context,
  and the record it handed to the handler (if any).
\<close>

datatype 'w outcome =
  Fault int
| HandlerFault
| Returned int "parse_error option" parser_state 'w "(string \<times> string) option"

text \<open>
  The callback \<^verbatim>\<open>handler(clientd, name, value)\<close>: it returns a code and may
  change what \<^verbatim>\<open>clientd\<close> stands for (for the loader, the process
  environment); \<open>None\<close> when the handler itself runs outside defined behaviour.
\<close>

type_synonym 'w handler = "'w \<Rightarrow> string \<Rightarrow> string \<Rightarrow> (int \<times> 'w) option"

subsection \<open>Array accesses\<close>

definition in_bounds :: "char list \<Rightarrow> int \<Rightarrow> bool" where
  "in_bounds buf i \<longleftrightarrow> 0 \<le> i \<and> i < int (length buf)"

definition poke :: "char list \<Rightarrow> int \<Rightarrow> char \<Rightarrow> char list" where
  "poke buf i c = buf[nat i := c]"

text \<open>\<^verbatim>\<open>memcpy(buf + off, src, length src)\<close>, byte by byte; \<open>Inl i\<close> is the
  first index outside the array.\<close>

fun memcpy_to :: "char list \<Rightarrow> int \<Rightarrow> char list \<Rightarrow> int + char list" where
  "memcpy_to buf off [] = Inr buf"
| "memcpy_to buf off (c # cs) =
     (if in_bounds buf off then memcpy_to (poke buf off c) (off + 1) cs else Inl off)"

text \<open>The C string that starts at \<^verbatim>\<open>buf + off\<close>: the bytes up to the first
  null; \<open>None\<close> when the pointer is outside the array or no null follows.\<close>

definition c_str :: "char list \<Rightarrow> int \<Rightarrow> string option" where
  "c_str buf off =
     (if in_bounds buf off \<and> NUL \<in> set (drop (nat off) buf)
      then Some (takeWhile (\<lambda>c. c \<noteq> NUL) (drop (nat off) buf)) else None)"

subsection \<open>The line parser\<close>

text \<open>
  The trim loop \<^verbatim>\<open>for (int j = i - 1; j >= 0; j--)\<close>; the second argument is
  \<open>j + 1\<close>, so that \<open>0\<close> is the exit \<^verbatim>\<open>j < 0\<close>. It yields the buffer and
  \<^verbatim>\<open>name_end\<close>.
\<close>

fun trim_name :: "char list \<Rightarrow> nat \<Rightarrow> char list \<Rightarrow> int \<Rightarrow> int + (char list \<times> int)" where
  "trim_name line 0 buf ne = Inr (buf, ne)"
| "trim_name line (Suc j) buf ne =
     (if SPC \<noteq> line_at line j \<and> TAB \<noteq> line_at line j then Inr (buf, ne)
      else if in_bounds buf (ne - 1) then trim_name line j (poke buf (ne - 1) NUL) (ne - 1)
      else Inl (ne - 1))"

text \<open>
  The name loop \<^verbatim>\<open>for (size_t i = cursor; i < length; i++)\<close>; the third
  argument is the rest of the line from index \<open>i\<close>. It yields the state and
  \<^verbatim>\<open>value_start\<close> (which stays \<open>0\<close> when no separator is met).
\<close>

fun name_loop :: "char list \<Rightarrow> nat \<Rightarrow> char list \<Rightarrow> parser_state \<Rightarrow> int + (parser_state \<times> nat)" where
  "name_loop line i [] s = Inr (s, 0)"
| "name_loop line i (c # cs) s =
     (if CHR '':'' = c \<or> CHR ''='' = c then
        (if in_bounds (property_str s) (name_end s) then
           (case trim_name line i (poke (property_str s) (name_end s) NUL) (name_end s) of
              Inl k \<Rightarrow> Inl k
            | Inr (buf, ne) \<Rightarrow>
                Inr (s\<lparr>property_str := buf, name_end := ne, value_end := ne + 1\<rparr>, i + 1))
         else Inl (name_end s))
      else if in_bounds (property_str s) (name_end s) then
        name_loop line (Suc i) cs
          (s\<lparr>property_str := poke (property_str s) (name_end s) c, name_end := name_end s + 1\<rparr>)
      else Inl (name_end s))"

text \<open>
  \<^verbatim>\<open>result = handler(clientd, property_str, property_str + name_end + 1);
  aeron_properties_parse_init(state); return result;\<close>
\<close>

definition emit :: "'w handler \<Rightarrow> 'w \<Rightarrow> parser_state \<Rightarrow> 'w outcome" where
  "emit handler clientd s =
     (case c_str (property_str s) 0 of
        None \<Rightarrow> Fault 0
      | Some name \<Rightarrow>
         (case c_str (property_str s) (name_end s + 1) of
            None \<Rightarrow> Fault (name_end s + 1)
          | Some val \<Rightarrow>
             (case handler clientd name val of
                None \<Rightarrow> HandlerFault
              | Some (result, clientd') \<Rightarrow>
                  Returned result None (aeron_properties_parse_init s) clientd' (Some (name, val)))))"

text \<open>Lines 128 to 144: the value bytes of this line, from \<^verbatim>\<open>value_start\<close>.
  They are reached only after the scanner has found a byte that is not blank, so
  the line is not empty and \<^verbatim>\<open>line[length - 1]\<close> is its last byte.\<close>

definition accumulate :: "'w handler \<Rightarrow> 'w \<Rightarrow> parser_state \<Rightarrow> char list \<Rightarrow> nat \<Rightarrow> 'w outcome" where
  "accumulate handler clientd s line value_start =
     (if BSL = line_at line (length line - 1) then
        (case memcpy_to (property_str s) (value_end s)
                (take (length line - value_start - 1) (drop value_start line)) of
           Inl k \<Rightarrow> Fault k
         | Inr buf \<Rightarrow>
             Returned 0 None
               (s\<lparr>property_str := buf,
                  value_end := value_end s + int (length line - value_start - 1)\<rparr>)
               clientd None)
      else
        (case memcpy_to (property_str s) (value_end s)
                (take (length line - value_start) (drop value_start line)) of
           Inl k \<Rightarrow> Fault k
         | Inr buf \<Rightarrow>
            (let ve = value_end s + int (length line - value_start) in
             if in_bounds buf ve then
               emit handler clientd (s\<lparr>property_str := poke buf ve NUL, value_end := ve + 1\<rparr>)
             else Fault ve)))"

text \<open>
  The call itself. The bound check compares on \<^verbatim>\<open>size_t\<close>, where the
  subtraction wraps modulo \<open>2 ^ 64\<close>. The tests \<^verbatim>\<open>-1 == cursor || ...\<close> read
  \<^verbatim>\<open>line[cursor]\<close> only when the scanner has found an index.
\<close>

definition aeron_properties_parse_line ::
  "'w handler \<Rightarrow> 'w \<Rightarrow> parser_state \<Rightarrow> char list \<Rightarrow> 'w outcome" where
  "aeron_properties_parse_line handler clientd s line =
     (let in_name = (if 0 < name_end s then False else True) in
      if int (length line) \<ge> (int (length (property_str s)) - value_end s) mod 2 ^ 64 then
        Returned (- 1) (Some LineTooLong) s clientd None
      else if in_name then
        (let cursor = aeron_next_non_whitespace line 0 (size_pred (length line)) in
         if - 1 = cursor \<or> CHR ''!'' = line_at line (nat cursor)
            \<or> CHR ''#'' = line_at line (nat cursor) then
           Returned 0 None s clientd None
         else
           (case name_loop line (nat cursor) (drop (nat cursor) line) s of
              Inl k \<Rightarrow> Fault k
            | Inr (s1, vs) \<Rightarrow>
               if 0 = value_end s1 \<or> 0 = name_end s1 then
                 Returned (- 1) (Some MalformedLine) (aeron_properties_parse_init s1) clientd None
               else
                 (let value_start = aeron_next_non_whitespace line vs (size_pred (length line)) in
                  if - 1 = value_start then
                    (if in_bounds (property_str s1) (value_end s1) then
                       emit handler clientd
                         (s1\<lparr>property_str := poke (property_str s1) (value_end s1) NUL,
                             value_end := value_end s1 + 1\<rparr>)
                     else Fault (value_end s1))
                  else accumulate handler clientd s1 line (nat value_start))))
      else
        (let value_start = aeron_next_non_whitespace line 0 (size_pred (length line)) in
         if - 1 = value_start \<or> CHR ''!'' = line_at line (nat value_start)
            \<or> CHR ''#'' = line_at line (nat value_start) then
           Returned 0 None s clientd None
         else accumulate handler clientd s line (nat value_start)))"

subsection \<open>The environment adapter\<close>

text \<open>
  The process environment, with the C library's \<^verbatim>\<open>setenv\<close> and
  \<^verbatim>\<open>unsetenv\<close>, and \<^verbatim>\<open>toupper\<close> in the C locale. Both library calls
  fail with \<^verbatim>\<open>EINVAL\<close> and leave the environment as it is when the name is
  empty or contains \<open>=\<close>; the adapter ignores what they return, so only their
  effect on the environment is modelled.
\<close>

type_synonym env = "string \<rightharpoonup> string"

definition c_setenv :: "env \<Rightarrow> string \<Rightarrow> string \<Rightarrow> bool \<Rightarrow> env" where
  "c_setenv e k v overwrite =
     (if k = [] \<or> CHR ''='' \<in> set k then e
      else if overwrite \<or> e k = None then e(k \<mapsto> v) else e)"

definition c_unsetenv :: "env \<Rightarrow> string \<Rightarrow> env" where
  "c_unsetenv e k = (if k = [] \<or> CHR ''='' \<in> set k then e else e(k := None))"

definition c_toupper :: "char \<Rightarrow> char" where
  "c_toupper c =
     (if (97::nat) \<le> of_char c \<and> of_char c \<le> (122::nat)
      then char_of (of_char c - (32::nat)) else c)"

text \<open>
  The loop \<^verbatim>\<open>for (size_t i = 0; i < sizeof(env_name); i++)\<close>; the first
  argument is \<^verbatim>\<open>sizeof(env_name)\<close>, the last the rest of \<^verbatim>\<open>name\<close> from
  index \<open>i\<close> (empty at the terminator). It yields the string left in
  \<^verbatim>\<open>env_name\<close>, or \<open>None\<close> when the loop runs to the end of the array
  without writing a terminator.
\<close>

fun env_name_loop :: "nat \<Rightarrow> nat \<Rightarrow> char list \<Rightarrow> string option" where
  "env_name_loop n i [] = (if i < n then Some [] else None)"
| "env_name_loop n i (c # cs) =
     (if i < n then
        (if CHR ''.'' = c then map_option ((#) (CHR ''_'')) (env_name_loop n (Suc i) cs)
         else if NUL = c then Some []
         else map_option ((#) (c_toupper c)) (env_name_loop n (Suc i) cs))
      else None)"

text \<open>The first argument is \<^verbatim>\<open>AERON_PROPERTIES_MAX_LENGTH\<close>, a constant of the
  header.\<close>

definition aeron_properties_setenv :: "nat \<Rightarrow> env \<Rightarrow> string \<Rightarrow> string \<Rightarrow> (int \<times> env) option" where
  "aeron_properties_setenv max_length e name val =
     (case env_name_loop max_length 0 name of
        None \<Rightarrow> None
      | Some env_name \<Rightarrow>
          if NUL = line_at val 0 then Some (0, c_unsetenv e env_name)
          else Some (0, c_setenv e env_name val True))"

definition aeron_properties_setenv_property :: "nat \<Rightarrow> env handler" where
  "aeron_properties_setenv_property max_length clientd name val =
     aeron_properties_setenv max_length clientd name val"

subsection \<open>The file loader\<close>

text \<open>
  \<^verbatim>\<open>fgets(line, n, fpin)\<close> on the bytes not yet read: at most \<open>n - 1\<close> bytes,
  up to and including the first newline; \<open>None\<close> is the \<^verbatim>\<open>NULL\<close> it returns
  when nothing is left. It yields what it read and what remains.
\<close>

definition fgets :: "nat \<Rightarrow> char list \<Rightarrow> (char list \<times> char list) option" where
  "fgets n content =
     (if content = [] then None
      else
        (let upto = takeWhile (\<lambda>c. c \<noteq> LF) content;
             chunk = (if length upto < length content then upto @ [LF] else upto);
             raw = take (n - 1) chunk
         in Some (raw, drop (length raw) content)))"

lemma fgets_rest:
  assumes "fgets n content = Some (raw, rest)"
  shows "rest = drop (length raw) content" and "content \<noteq> []"
  using assms unfolding fgets_def Let_def
  by (auto simp only: option.inject prod.inject option.distinct split: if_splits)

datatype load_error =
  CouldNotOpen
| LineMalformed int
| LineTooLongOrNoNewline int
| ErrorReadingFile

text \<open>
  The \<^verbatim>\<open>while\<close> loop of the loader and the test of \<^verbatim>\<open>feof\<close> after it.
  \<open>read_fails\<close> says that the read that finds nothing left is a read error
  rather than the end of the file. The result is the value of \<^verbatim>\<open>result\<close>,
  the error recorded and the environment; \<open>None\<close> when the run leaves the
  bounds of \<^verbatim>\<open>line\<close> (\<^verbatim>\<open>line[length - 1]\<close> with \<^verbatim>\<open>length\<close> zero)
  or of the parser's buffer.
\<close>

function read_lines ::
  "nat \<Rightarrow> bool \<Rightarrow> char list \<Rightarrow> int \<Rightarrow> parser_state \<Rightarrow> env
    \<Rightarrow> (int \<times> load_error option \<times> env) option" where
  "read_lines max_length read_fails content lineno state e =
     (case fgets max_length content of
        None \<Rightarrow> if read_fails then Some (- 1, Some ErrorReadingFile, e) else Some (0, None, e)
      | Some (raw, rest) \<Rightarrow>
         (let line = takeWhile (\<lambda>c. c \<noteq> NUL) raw in
          if line = [] then None
          else if LF = last line then
            (let line1 = butlast line in
             if line1 = [] then None
             else
               (let line2 = (if CR = last line1 then butlast line1 else line1) in
                case aeron_properties_parse_line
                       (aeron_properties_setenv_property max_length) e state line2 of
                  Fault k \<Rightarrow> None
                | HandlerFault \<Rightarrow> None
                | Returned r err state' e' em \<Rightarrow>
                    if r < 0 then Some (- 1, Some (LineMalformed lineno), e')
                    else read_lines max_length read_fails rest (lineno + 1) state' e'))
          else Some (- 1, Some (LineTooLongOrNoNewline lineno), e)))"
  by pat_completeness auto
termination
proof (relation "measure (\<lambda>(n, f, content, l, s, e). length content)")
  show "wf (measure (\<lambda>(n, f, content, l, s, e). length content))" by simp
next
  fix max_length :: nat and read_fails :: bool and content :: "char list"
    and x2 :: "char list \<times> char list" and raw rest line :: "char list"
  assume "fgets max_length content = Some x2" "(raw, rest) = x2"
    "line = takeWhile (\<lambda>c. c \<noteq> NUL) raw" "line \<noteq> []"
  then have "raw \<noteq> []" "rest = drop (length raw) content" "content \<noteq> []"
    using fgets_rest [of max_length content raw rest] by auto
  then have "length rest < length content" by simp
  then show "((max_length, read_fails, rest, lineno + 1, state', e'),
              (max_length, read_fails, content, lineno, state, e))
             \<in> measure (\<lambda>(n, f, content, l, s, e). length content)"
    for lineno state' e' state e
    by simp
qed

text \<open>What a load does: \<open>LoadFault\<close> when the run leaves defined behaviour, or
  the code returned, the error recorded, whether \<^verbatim>\<open>fclose\<close> was called, and
  the environment.\<close>

datatype load_outcome =
  LoadFault
| Loaded int "load_error option" bool env

text \<open>
  The file is \<open>None\<close> when \<^verbatim>\<open>fopen\<close> fails, and else its bytes and whether
  reading ends in an error. \<open>garbage\<close> is what the buffer of the fresh parser
  state on the stack holds: \<^verbatim>\<open>aeron_properties_parse_init\<close> sets the offsets
  only. Its length, the capacity of the buffer, is \<^verbatim>\<open>AERON_PROPERTIES_MAX_LENGTH\<close>.
\<close>

definition aeron_properties_file_load ::
  "nat \<Rightarrow> char list \<Rightarrow> (char list \<times> bool) option \<Rightarrow> env \<Rightarrow> load_outcome" where
  "aeron_properties_file_load max_length garbage file e =
     (case file of
        None \<Rightarrow> Loaded (- 1) (Some CouldNotOpen) False e
      | Some (content, read_fails) \<Rightarrow>
         (case read_lines max_length read_fails content 1
                 (aeron_properties_parse_init
                    \<lparr>property_str = take max_length (garbage @ replicate max_length NUL),
                     name_end = 0, value_end = 0\<rparr>) e of
            None \<Rightarrow> LoadFault
          | Some (result, err, e') \<Rightarrow> Loaded result err True e'))"

subsection \<open>The state invariant\<close>

text \<open>The zero state, or a record under way: the name is followed by its null
  and the value region lies inside the buffer.\<close>

definition parser_inv :: "parser_state \<Rightarrow> bool" where
  "parser_inv s \<longleftrightarrow>
     (name_end s = 0 \<and> value_end s = 0)
     \<or> (0 < name_end s \<and> name_end s < value_end s
        \<and> value_end s \<le> int (length (property_str s))
        \<and> property_str s ! nat (name_end s) = NUL)"

subsection \<open>Sample handlers\<close>

text \<open>A handler that counts its calls in its context and returns a fixed code,
  and one that records what it is given.\<close>

definition counting_handler :: "int \<Rightarrow> nat handler" where
  "counting_handler code w n v = Some (code, Suc w)"

definition recording_handler :: "(string \<times> string) list handler" where
  "recording_handler w n v = Some (0, w @ [(n, v)])"

section \<open>Properties\<close>

subsection \<open>The scanner\<close>

lemma scan_non_whitespace_eq:
  "scan_non_whitespace i end xs =
     (if dropWhile is_blank xs = [] \<or> hd (dropWhile is_blank xs) = NUL
         \<or> end < i + length (takeWhile is_blank xs)
      then - 1 else int (i + length (takeWhile is_blank xs)))"
  by (induction xs arbitrary: i) (auto simp: is_blank_def)

text \<open>As the parser calls it, with \<^verbatim>\<open>end = length - 1\<close>: the index of the first
  byte that is not blank, unless the string ends (or holds a null) there.\<close>

lemma next_non_whitespace_line:
  assumes "start \<le> length line"
  shows "aeron_next_non_whitespace line start (size_pred (length line)) =
     (if dropWhile is_blank (drop start line) = []
         \<or> hd (dropWhile is_blank (drop start line)) = NUL
      then - 1 else int (start + length (takeWhile is_blank (drop start line))))"
proof -
  let ?xs = "drop start line"
  have len: "length (takeWhile is_blank ?xs) + length (dropWhile is_blank ?xs)
               = length line - start"
    by (metis length_append length_drop takeWhile_dropWhile_id)
  show ?thesis
  proof (cases "dropWhile is_blank ?xs = []")
    case True
    then show ?thesis by (simp add: aeron_next_non_whitespace_def scan_non_whitespace_eq)
  next
    case False
    then have "0 < length (dropWhile is_blank ?xs)" by simp
    with len assms have "start + length (takeWhile is_blank ?xs) < length line" by linarith
    then have "\<not> size_pred (length line) < start + length (takeWhile is_blank ?xs)"
      by (cases "length line = 0") (simp_all add: size_pred_def)
    then show ?thesis
      by (simp add: aeron_next_non_whitespace_def scan_non_whitespace_eq)
  qed
qed

subsection \<open>The bound check\<close>

text \<open>
  Claim C5. Whatever the state and the line, when
  \<open>length \<ge> capacity - value_end\<close> the call returns \<open>-1\<close>, records the error
  "line too long for parser state", and leaves every field of the state as it
  was; the handler is not called. The state's \<^verbatim>\<open>value_end\<close> is at most the
  capacity, so that the subtraction on \<^verbatim>\<open>size_t\<close> does not wrap.
\<close>

theorem parse_line_too_long:
  assumes "value_end s \<le> int (length (property_str s))"
    and "int (length (property_str s)) - value_end s < 2 ^ 64"
    and "int (length line) \<ge> int (length (property_str s)) - value_end s"
  shows "aeron_properties_parse_line handler clientd s line =
           Returned (- 1) (Some LineTooLong) s clientd None"
  using assms by (simp add: aeron_properties_parse_line_def)

theorem parse_line_too_long_witness:
  "aeron_properties_parse_line (\<lambda>w n v. Some (0, w)) ()
     \<lparr>property_str = ''N'' @ [NUL] @ ''AB'' @ ''xxxx'', name_end = 1, value_end = 4\<rparr> ''abcd''
   = Returned (- 1) (Some LineTooLong)
       \<lparr>property_str = ''N'' @ [NUL] @ ''AB'' @ ''xxxx'', name_end = 1, value_end = 4\<rparr> () None"
  by (rule parse_line_too_long) simp_all

subsection \<open>Comments and blank lines\<close>

lemma blank_prefix_scan:
  assumes "set ws \<subseteq> {SPC, TAB}"
  shows "dropWhile is_blank (ws @ rest) = dropWhile is_blank rest"
    and "takeWhile is_blank (ws @ rest) = ws @ takeWhile is_blank rest"
  using assms by (auto simp: is_blank_def intro!: dropWhile_append2 takeWhile_append2)

text \<open>
  Claim C4 as stated, for every blank or comment line in both states, does not
  hold: the bound check comes before the line is classified. After the fragment
  \<open>N=ABCDEFGHIJ\<close> with a backslash, \<^verbatim>\<open>value_end\<close> is \<open>12\<close> of \<open>16\<close>, and the
  comment \<open># hi\<close> of length \<open>4\<close> is rejected with \<open>-1\<close> as too long.
\<close>

theorem parse_line_long_comment_rejected:
  "aeron_properties_parse_line recording_handler []
     \<lparr>property_str = ''xxxxxxxxxxxxxxxx'', name_end = 0, value_end = 0\<rparr>
     (''N=ABCDEFGHIJ'' @ [BSL])
   = Returned 0 None
       \<lparr>property_str = ''N'' @ [NUL] @ ''ABCDEFGHIJ'' @ ''xxxx'', name_end = 1, value_end = 12\<rparr>
       [] None
   \<and> aeron_properties_parse_line recording_handler []
     \<lparr>property_str = ''N'' @ [NUL] @ ''ABCDEFGHIJ'' @ ''xxxx'', name_end = 1, value_end = 12\<rparr>
     ''# hi''
   = Returned (- 1) (Some LineTooLong)
       \<lparr>property_str = ''N'' @ [NUL] @ ''ABCDEFGHIJ'' @ ''xxxx'', name_end = 1, value_end = 12\<rparr>
       [] None"
  by code_simp

text \<open>
  Claim C4, amended. In either parser state (whatever \<^verbatim>\<open>name_end\<close> is), a line
  that consists of blanks only, or whose first byte after the leading blanks is
  \<open>!\<close> or \<open>#\<close>, and whose length is less than \<open>capacity - value_end\<close>, makes
  the call return \<open>0\<close> with the state unchanged, no error recorded and no
  record emitted.
\<close>

theorem parse_line_skips_comment:
  assumes "value_end s \<le> int (length (property_str s))"
    and "int (length (property_str s)) - value_end s < 2 ^ 64"
    and "int (length line) < int (length (property_str s)) - value_end s"
    and "line = ws @ rest" and "set ws \<subseteq> {SPC, TAB}"
    and "rest = [] \<or> hd rest = CHR ''!'' \<or> hd rest = CHR ''#''"
  shows "aeron_properties_parse_line handler clientd s line = Returned 0 None s clientd None"
proof -
  have fits: "\<not> int (length line) \<ge> (int (length (property_str s)) - value_end s) mod 2 ^ 64"
    using assms(1-3) by simp
  have scan: "aeron_next_non_whitespace line 0 (size_pred (length line)) = - 1
      \<or> (aeron_next_non_whitespace line 0 (size_pred (length line)) = int (length ws)
          \<and> (line_at line (length ws) = CHR ''!'' \<or> line_at line (length ws) = CHR ''#''))"
  proof (cases rest)
    case Nil
    have "dropWhile is_blank (ws @ []) = []"
      using assms(5) by (subst blank_prefix_scan) simp_all
    then show ?thesis
      using assms(4) Nil by (simp add: next_non_whitespace_line)
  next
    case (Cons c cs)
    with assms(6) have c: "c = CHR ''!'' \<or> c = CHR ''#''" by simp
    then have nb: "\<not> is_blank c" "c \<noteq> NUL" by (auto simp: is_blank_def)
    have "dropWhile is_blank line = c # cs" "takeWhile is_blank line = ws"
      using assms(4,5) Cons nb by (simp_all add: blank_prefix_scan)
    then have "aeron_next_non_whitespace line 0 (size_pred (length line)) = int (length ws)"
      using nb by (simp add: next_non_whitespace_line)
    moreover have "line_at line (length ws) = c"
      using assms(4) Cons by (simp add: line_at_def)
    ultimately show ?thesis using c by simp
  qed
  show ?thesis
    using fits scan by (auto simp: aeron_properties_parse_line_def Let_def)
qed

theorem parse_line_skips_comment_witness:
  "aeron_properties_parse_line (\<lambda>w n v. Some (0, w)) ()
     \<lparr>property_str = ''N'' @ [NUL] @ ''AB'' @ ''xxxxxxxxxxxx'', name_end = 1, value_end = 4\<rparr>
     (''  '' @ ''# c'')
   = Returned 0 None
     \<lparr>property_str = ''N'' @ [NUL] @ ''AB'' @ ''xxxxxxxxxxxx'', name_end = 1, value_end = 4\<rparr>
     () None"
  by (rule parse_line_skips_comment [where ws = "''  ''" and rest = "''# c''"]) simp_all

subsection \<open>Emission\<close>

lemma emit_Returned:
  assumes "emit handler clientd s = Returned rc e s' w' em"
  shows "\<exists>n v. em = Some (n, v) \<and> handler clientd n v = Some (rc, w') \<and> e = None
           \<and> s' = aeron_properties_parse_init s
           \<and> c_str (property_str s) 0 = Some n \<and> c_str (property_str s) (name_end s + 1) = Some v"
  using assms by (auto simp: emit_def split: option.splits prod.splits)

lemma accumulate_Returned_Some:
  assumes "accumulate handler clientd s line vs = Returned rc e s' w' (Some (n, v))"
  shows "handler clientd n v = Some (rc, w') \<and> e = None \<and> name_end s' = 0 \<and> value_end s' = 0"
  using assms
  by (auto simp: accumulate_def Let_def aeron_properties_parse_init_def
      split: if_splits sum.splits dest!: emit_Returned)

text \<open>
  Claim C7. Whenever a call hands a record \<open>(n, v)\<close> to the handler, the code it
  returns and the context it leaves are exactly what the handler returned for
  \<open>(n, v)\<close>, no error is recorded, and both offsets of the state are zero
  afterwards, whatever the handler's return value was.
\<close>

theorem parse_line_emission_result:
  assumes "aeron_properties_parse_line handler clientd s line = Returned rc e s' w' (Some (n, v))"
  shows "handler clientd n v = Some (rc, w') \<and> e = None \<and> name_end s' = 0 \<and> value_end s' = 0"
  using assms
  by (auto simp: aeron_properties_parse_line_def Let_def aeron_properties_parse_init_def
      split: if_splits sum.splits prod.splits dest!: emit_Returned accumulate_Returned_Some)

theorem parse_line_emission_result_witness:
  "aeron_properties_parse_line (counting_handler 7) 5
       \<lparr>property_str = ''xxxxxxxx'', name_end = 0, value_end = 0\<rparr> ''N=V''
     = Returned 7 None
         \<lparr>property_str = ''N'' @ [NUL] @ ''V'' @ [NUL] @ ''xxxx'', name_end = 0, value_end = 0\<rparr>
         6 (Some (''N'', ''V''))
   \<and> (counting_handler 7 5 ''N'' ''V'' = Some (7, 6) \<and> (None :: parse_error option) = None
      \<and> name_end \<lparr>property_str = ''N'' @ [NUL] @ ''V'' @ [NUL] @ ''xxxx'', name_end = 0, value_end = 0\<rparr> = 0
      \<and> value_end \<lparr>property_str = ''N'' @ [NUL] @ ''V'' @ [NUL] @ ''xxxx'', name_end = 0, value_end = 0\<rparr> = 0)"
proof -
  have run: "aeron_properties_parse_line (counting_handler 7) 5
       \<lparr>property_str = ''xxxxxxxx'', name_end = 0, value_end = 0\<rparr> ''N=V''
     = Returned 7 None
         \<lparr>property_str = ''N'' @ [NUL] @ ''V'' @ [NUL] @ ''xxxx'', name_end = 0, value_end = 0\<rparr>
         6 (Some (''N'', ''V''))"
    by code_simp
  show ?thesis
    by (rule conjI [OF run parse_line_emission_result [OF run]])
qed

subsection \<open>The environment adapter\<close>

lemma env_name_loop_map:
  assumes "NUL \<notin> set name" and "i + length name < n"
  shows "env_name_loop n i name
           = Some (map (\<lambda>c. if c = CHR ''.'' then CHR ''_'' else c_toupper c) name)"
  using assms by (induction name arbitrary: i) auto


lemma c_toupper_equals_sign: "c_toupper c = CHR ''='' \<longleftrightarrow> c = CHR ''=''"
proof (cases "(97::nat) \<le> of_char c \<and> of_char c \<le> (122::nat)")
  case True
  then have "(of_char c :: nat) - 32 < 256" by arith
  then have "((of_char c :: nat) - 32) mod 256 = of_char c - 32" by (rule mod_less)
  then have "(of_char (char_of (of_char c - (32::nat))) :: nat) = of_char c - 32"
    by (simp only: of_char_of)
  then have up: "(of_char (c_toupper c) :: nat) = of_char c - 32"
    using True by (simp add: c_toupper_def)
  have "(of_char c :: nat) - 32 \<noteq> 61" using True by arith
  then have "(of_char (c_toupper c) :: nat) \<noteq> of_char (CHR ''='')"
    unfolding up by simp
  then have "c_toupper c \<noteq> CHR ''=''"
  proof (rule contrapos_nn)
    assume "c_toupper c = CHR ''=''"
    then show "(of_char (c_toupper c) :: nat) = of_char (CHR ''='')" by (rule arg_cong)
  qed
  moreover have "c \<noteq> CHR ''=''" using True by auto
  ultimately show ?thesis by simp
next
  case False
  then show ?thesis by (auto simp: c_toupper_def)
qed




text \<open>With a name that the library refuses, the adapter still returns \<open>0\<close> and
  the environment is as before.\<close>

lemma setenv_refused_name:
  assumes "length name < max_length" and "NUL \<notin> set name"
    and "name = [] \<or> CHR ''='' \<in> set name"
  shows "aeron_properties_setenv max_length e name val = Some (0, e)"
proof -
  let ?key = "map (\<lambda>c. if c = CHR ''.'' then CHR ''_'' else c_toupper c) name"
  have loop: "env_name_loop max_length 0 name = Some ?key"
    using assms(1,2) by (simp add: env_name_loop_map)
  have up: "c_toupper (CHR ''='') = CHR ''=''" by (simp add: c_toupper_equals_sign)
  have "?key = [] \<or> CHR ''='' \<in> set ?key"
  proof (cases "name = []")
    case True
    then show ?thesis by simp
  next
    case False
    with assms(3) have "CHR ''='' \<in> set name" by simp
    then have "(if CHR ''='' = CHR ''.'' then CHR ''_'' else c_toupper (CHR ''=''))
                 \<in> (\<lambda>c. if c = CHR ''.'' then CHR ''_'' else c_toupper c) ` set name"
      by (rule imageI)
    then show ?thesis using up by simp
  qed
  then have "c_setenv e ?key val True = e" "c_unsetenv e ?key = e"
    by (simp_all only: c_setenv_def c_unsetenv_def if_True)
  then show ?thesis
    by (simp add: aeron_properties_setenv_def loop)
qed

subsection \<open>Stores into the buffer\<close>

lemma poke_nat: "poke buf (int k) c = buf[k := c]"
  by (simp add: poke_def)

lemma in_bounds_nat: "in_bounds buf (int k) \<longleftrightarrow> k < length buf"
  by (simp add: in_bounds_def)

lemma memcpy_to_nat:
  assumes "k + length src \<le> length buf"
  shows "memcpy_to buf (int k) src = Inr (take k buf @ src @ drop (k + length src) buf)"
  using assms
proof (induction src arbitrary: buf k)
  case Nil
  then show ?case by simp
next
  case (Cons c cs)
  then have k: "k < length buf" by simp
  have "memcpy_to (buf[k := c]) (int (Suc k)) cs
          = Inr (take (Suc k) (buf[k := c]) @ cs @ drop (Suc k + length cs) (buf[k := c]))"
    using Cons.prems by (intro Cons.IH) simp
  then have "memcpy_to (buf[k := c]) (int k + 1) cs
          = Inr (take (Suc k) (buf[k := c]) @ cs @ drop (Suc k + length cs) (buf[k := c]))"
    by (simp add: add.commute)
  moreover have "take (Suc k) (buf[k := c]) = take k buf @ [c]"
    using k by (simp add: take_Suc_conv_app_nth)
  ultimately show ?case
    using k by (simp add: in_bounds_nat poke_nat)
qed

lemma length_memcpy_to:
  "memcpy_to buf off src = Inr buf' \<Longrightarrow> length buf' = length buf"
  by (induction src arbitrary: buf off) (auto simp: poke_def split: if_splits)

lemma c_str_at:
  assumes "NUL \<notin> set v"
  shows "c_str (pre @ v @ NUL # post) (int (length pre)) = Some v"
proof -
  have "takeWhile (\<lambda>c. c \<noteq> NUL) (v @ NUL # post) = v"
    using assms by (induction v) auto
  then show ?thesis by (simp add: c_str_def in_bounds_def)
qed

lemma trim_name_blanks:
  assumes "set ws \<subseteq> {SPC, TAB}" and "length ws \<le> ne" and "ne \<le> length buf"
    and "pre = [] \<or> \<not> is_blank (last pre)"
  shows "trim_name (pre @ ws @ post) (length pre + length ws) buf (int ne)
           = Inr (take (ne - length ws) buf @ replicate (length ws) NUL @ drop ne buf,
                  int (ne - length ws))"
  using assms(1-3)
proof (induction ws arbitrary: buf ne post rule: rev_induct)
  case Nil
  show ?case
  proof (cases pre rule: rev_cases)
    case Nil
    then show ?thesis by simp
  next
    case (snoc ps p)
    with assms(4) have "\<not> is_blank p" by simp
    then show ?thesis
      using snoc by (auto simp: line_at_def nth_append is_blank_def)
  qed
next
  case (snoc w ws)
  from snoc.prems obtain m where ne: "ne = Suc m" by (cases ne) auto
  have w: "w = SPC \<or> w = TAB" using snoc.prems(1) by simp
  have at: "line_at (pre @ (ws @ [w]) @ post) (length pre + length ws) = w"
    by (simp add: line_at_def nth_append)
  have m: "m < length buf" "length ws \<le> m" using snoc.prems ne by simp_all
  have IH: "trim_name (pre @ ws @ ([w] @ post)) (length pre + length ws) (buf[m := NUL]) (int m)
          = Inr (take (m - length ws) (buf[m := NUL]) @ replicate (length ws) NUL
                   @ drop m (buf[m := NUL]), int (m - length ws))"
    using snoc.prems m by (intro snoc.IH) simp_all
  have upd: "take (m - length ws) (buf[m := NUL]) = take (m - length ws) buf"
    "drop m (buf[m := NUL]) = NUL # drop (Suc m) buf"
    using m by (simp_all add: drop_update_swap Cons_nth_drop_Suc [symmetric])
  have step: "trim_name (pre @ (ws @ [w]) @ post) (Suc (length pre + length ws)) buf (int (Suc m))
          = trim_name (pre @ (ws @ [w]) @ post) (length pre + length ws) (buf[m := NUL]) (int m)"
    using w m at by (auto simp: in_bounds_def poke_def)
  have "replicate (length ws) NUL @ NUL # drop (Suc m) buf
          = replicate (Suc (length ws)) NUL @ drop (Suc m) buf"
    by (simp add: replicate_app_Cons_same)
  then show ?case
    using step IH upd ne m by (simp add: Suc_diff_le)
qed

lemma trim_name_underflow:
  assumes "set ws \<subseteq> {SPC, TAB}" and "ne < length ws" and "ne \<le> length buf"
  shows "trim_name (pre @ ws @ post) (length pre + length ws) buf (int ne) = Inl (- 1)"
  using assms
proof (induction ws arbitrary: buf ne post rule: rev_induct)
  case Nil
  then show ?case by simp
next
  case (snoc w ws)
  have w: "w = SPC \<or> w = TAB" using snoc.prems(1) by simp
  have at: "line_at (pre @ (ws @ [w]) @ post) (length pre + length ws) = w"
    by (simp add: line_at_def nth_append)
  show ?case
  proof (cases ne)
    case 0
    then show ?thesis using w at by (auto simp: in_bounds_def)
  next
    case (Suc m)
    have m: "m < length buf" "m < length ws" using snoc.prems Suc by simp_all
    have IH: "trim_name (pre @ ws @ ([w] @ post)) (length pre + length ws) (buf[m := NUL]) (int m)
            = Inl (- 1)"
      using snoc.prems m by (intro snoc.IH) simp_all
    have "trim_name (pre @ (ws @ [w]) @ post) (Suc (length pre + length ws)) buf (int (Suc m))
          = trim_name (pre @ (ws @ [w]) @ post) (length pre + length ws) (buf[m := NUL]) (int m)"
      using w m at by (auto simp: in_bounds_def poke_def)
    then show ?thesis using IH Suc by simp
  qed
qed

subsection \<open>The name loop\<close>

lemma name_loop_copy:
  assumes "\<forall>c\<in>set xs. c \<noteq> CHR '':'' \<and> c \<noteq> CHR ''=''"
    and "name_end s = int ne" and "ne + length xs \<le> length (property_str s)"
  shows "name_loop line i (xs @ ys) s
           = name_loop line (i + length xs) ys
               (s\<lparr>property_str := take ne (property_str s) @ xs
                                      @ drop (ne + length xs) (property_str s),
                  name_end := int (ne + length xs)\<rparr>)"
  using assms
proof (induction xs arbitrary: i s ne)
  case Nil
  show ?case by (simp add: Nil.prems(2) [symmetric])
next
  case (Cons c cs)
  let ?buf = "property_str s"
  let ?s1 = "s\<lparr>property_str := poke ?buf (name_end s) c, name_end := name_end s + 1\<rparr>"
  have ne: "ne < length ?buf" using Cons.prems by simp
  have c: "CHR '':'' \<noteq> c" "CHR ''='' \<noteq> c" using Cons.prems(1) by auto
  have step: "name_loop line i ((c # cs) @ ys) s = name_loop line (Suc i) (cs @ ys) ?s1"
    using c ne Cons.prems(2) by (simp add: in_bounds_nat)
  have s1: "name_end ?s1 = int (Suc ne)" "property_str ?s1 = ?buf[ne := c]"
    using Cons.prems(2) by (simp_all add: poke_nat)
  have IH: "name_loop line (Suc i) (cs @ ys) ?s1
      = name_loop line (Suc i + length cs) ys
          (?s1\<lparr>property_str := take (Suc ne) (property_str ?s1) @ cs
                                  @ drop (Suc ne + length cs) (property_str ?s1),
                name_end := int (Suc ne + length cs)\<rparr>)"
    using Cons.prems s1 by (intro Cons.IH) simp_all
  have "take (Suc ne) (?buf[ne := c]) = take ne ?buf @ [c]"
    using ne by (simp add: take_Suc_conv_app_nth)
  then show ?case
    unfolding step IH s1 by simp
qed

lemma name_loop_no_separator:
  assumes "\<forall>c\<in>set xs. c \<noteq> CHR '':'' \<and> c \<noteq> CHR ''=''"
    and "name_end s = 0" and "length xs \<le> length (property_str s)"
  shows "name_loop line i xs s
           = Inr (s\<lparr>property_str := xs @ drop (length xs) (property_str s),
                    name_end := int (length xs)\<rparr>, 0)"
  using name_loop_copy [of xs s 0 line i "[]"] assms by simp

lemma name_loop_record:
  assumes "name_end s = 0"
    and "set ws1 \<subseteq> {SPC, TAB}" and "set ws2 \<subseteq> {SPC, TAB}"
    and "sep = CHR '':'' \<or> sep = CHR ''=''"
    and "name \<noteq> []" and "\<not> is_blank (last name)"
    and "\<forall>c\<in>set name. c \<noteq> CHR '':'' \<and> c \<noteq> CHR ''=''"
    and "length name + length ws2 < length (property_str s)"
  shows "name_loop (ws1 @ name @ ws2 @ [sep] @ rest) (length ws1) (name @ ws2 @ [sep] @ rest) s
           = Inr (s\<lparr>property_str := name @ replicate (Suc (length ws2)) NUL
                          @ drop (Suc (length name + length ws2)) (property_str s),
                    name_end := int (length name), value_end := int (length name) + 1\<rparr>,
                  Suc (length ws1 + length name + length ws2))"
proof -
  let ?line = "ws1 @ name @ ws2 @ [sep] @ rest"
  let ?buf = "property_str s"
  let ?n = "length name" and ?w = "length ws2"
  let ?buf1 = "(name @ ws2) @ drop (?n + ?w) ?buf"
  let ?s1 = "s\<lparr>property_str := ?buf1, name_end := int (?n + ?w)\<rparr>"
  let ?buf2 = "?buf1[?n + ?w := NUL]"
  have nosep: "\<forall>c\<in>set (name @ ws2). c \<noteq> CHR '':'' \<and> c \<noteq> CHR ''=''"
    using assms(3,7) by auto
  have copy: "name_loop ?line (length ws1) ((name @ ws2) @ sep # rest) s
                = name_loop ?line (length ws1 + (?n + ?w)) (sep # rest) ?s1"
    using name_loop_copy [OF nosep, of s 0 ?line "length ws1" "sep # rest"] assms(1,8)
    by simp
  have buf2: "?buf2 = name @ ws2 @ NUL # drop (Suc (?n + ?w)) ?buf"
    using assms(8) by (simp add: list_update_append drop_Suc_Cons [symmetric]
        upd_conv_take_nth_drop drop_Suc del: drop_Suc_Cons)
  have len2: "?n + ?w \<le> length ?buf2" using assms(8) by simp
  have trim: "trim_name ((ws1 @ name) @ ws2 @ ([sep] @ rest)) (length (ws1 @ name) + ?w) ?buf2
                 (int (?n + ?w))
               = Inr (take (?n + ?w - ?w) ?buf2 @ replicate ?w NUL @ drop (?n + ?w) ?buf2,
                      int (?n + ?w - ?w))"
    using assms(3,5,6) len2 by (intro trim_name_blanks) simp_all
  have "take ?n ?buf2 = name" "drop (?n + ?w) ?buf2 = NUL # drop (Suc (?n + ?w)) ?buf"
    unfolding buf2 by simp_all
  with trim have trim': "trim_name ?line (length ws1 + (?n + ?w)) ?buf2 (int (?n + ?w))
      = Inr (name @ replicate (Suc ?w) NUL @ drop (Suc (?n + ?w)) ?buf, int ?n)"
    by (simp add: replicate_app_Cons_same add.assoc)
  have inb: "in_bounds ?buf1 (int (?n + ?w))"
    using assms(8) by (simp add: in_bounds_def)
  have "name_loop ?line (length ws1 + (?n + ?w)) (sep # rest) ?s1
          = Inr (s\<lparr>property_str := name @ replicate (Suc ?w) NUL @ drop (Suc (?n + ?w)) ?buf,
                    name_end := int ?n, value_end := int ?n + 1\<rparr>,
                  Suc (length ws1 + ?n + ?w))"
    using assms(4) inb trim' by (auto simp: poke_nat simp del: of_nat_add)
  with copy show ?thesis by simp
qed

lemma name_loop_underflow:
  assumes "name_end s = 0" and "set ws1 \<subseteq> {SPC, TAB}" and "ws1 \<noteq> []"
    and "sep = CHR '':'' \<or> sep = CHR ''=''" and "property_str s \<noteq> []"
  shows "name_loop (ws1 @ [sep] @ rest) (length ws1) ([sep] @ rest) s = Inl (- 1)"
proof -
  have "trim_name ([] @ ws1 @ ([sep] @ rest)) (length ([] :: char list) + length ws1)
          ((property_str s)[0 := NUL]) (int 0) = Inl (- 1)"
    using assms(2,3) by (intro trim_name_underflow) simp_all
  then show ?thesis
    using assms(1,4,5) by (auto simp: in_bounds_def poke_def)
qed

subsection \<open>Value accumulation\<close>

lemma last_byte: "line \<noteq> [] \<Longrightarrow> line_at line (length line - Suc 0) = last line"
  by (simp add: line_at_def last_conv_nth)

lemma accumulate_continues:
  assumes "line \<noteq> []" and "last line = BSL" and "vs < length line"
    and "value_end s = int ve"
    and "ve + (length line - vs - 1) \<le> length (property_str s)"
  shows "accumulate handler clientd s line vs
           = Returned 0 None
               (s\<lparr>property_str :=
                    take ve (property_str s) @ take (length line - vs - 1) (drop vs line)
                      @ drop (ve + (length line - vs - 1)) (property_str s),
                  value_end := value_end s + int (length line - vs - 1)\<rparr>)
               clientd None"
proof -
  let ?body = "take (length line - vs - 1) (drop vs line)"
  have len: "length ?body = length line - vs - 1" using assms(3) by simp
  have "memcpy_to (property_str s) (int ve) ?body
          = Inr (take ve (property_str s) @ ?body @ drop (ve + length ?body) (property_str s))"
    using assms(5) len by (intro memcpy_to_nat) simp
  then show ?thesis
    using assms(1,2,4) len by (simp add: accumulate_def last_byte)
qed

lemma emit_record:
  assumes "property_str s = name @ NUL # val @ NUL # post"
    and "name_end s = int (length name)"
    and "NUL \<notin> set name" and "NUL \<notin> set val"
  shows "emit handler clientd s
           = (case handler clientd name val of
                None \<Rightarrow> HandlerFault
              | Some (r, w') \<Rightarrow>
                  Returned r None (aeron_properties_parse_init s) w' (Some (name, val)))"
proof -
  have "c_str ([] @ name @ NUL # val @ NUL # post) (int (length ([] :: char list))) = Some name"
    using assms(3) by (rule c_str_at)
  then have n: "c_str (property_str s) 0 = Some name"
    using assms(1) by simp
  have "c_str ((name @ [NUL]) @ val @ NUL # post) (int (length (name @ [NUL]))) = Some val"
    using assms(4) by (rule c_str_at)
  then have v: "c_str (property_str s) (name_end s + 1) = Some val"
    using assms(1,2) by (simp add: add.commute)
  show ?thesis
    by (simp add: emit_def n v split: option.splits)
qed

lemma accumulate_emits:
  assumes "line \<noteq> []" and "last line \<noteq> BSL"
    and "memcpy_to (property_str s) (value_end s) (take (length line - vs) (drop vs line))
           = Inr buf1"
    and "value_end s + int (length line - vs) = int k" and "k < length buf1"
  shows "accumulate handler clientd s line vs
           = emit handler clientd (s\<lparr>property_str := buf1[k := NUL], value_end := int k + 1\<rparr>)"
  using assms by (simp add: accumulate_def last_byte Let_def in_bounds_nat poke_nat)

lemma accumulate_terminates:
  assumes "line \<noteq> []" and "last line \<noteq> BSL" and "vs \<le> length line"
    and "name_end s = int (length name)"
    and "value_end s = int (length name + 1 + length sofar)"
    and "take (length name + 1 + length sofar) (property_str s) = name @ NUL # sofar"
    and "length name + 1 + length sofar + (length line - vs) < length (property_str s)"
    and "NUL \<notin> set name" and "NUL \<notin> set sofar" and "NUL \<notin> set (drop vs line)"
  shows "accumulate handler clientd s line vs
           = (case handler clientd name (sofar @ drop vs line) of
                None \<Rightarrow> HandlerFault
              | Some (r, w') \<Rightarrow>
                  Returned r None
                    (s\<lparr>property_str :=
                         name @ NUL # sofar @ drop vs line @ NUL
                           # drop (length name + 2 + length sofar + (length line - vs))
                               (property_str s),
                       name_end := 0, value_end := 0\<rparr>)
                    w' (Some (name, sofar @ drop vs line)))"
proof -
  let ?buf = "property_str s"
  let ?v = "drop vs line"
  let ?ve = "length name + 1 + length sofar"
  have tk: "take (length line - vs) ?v = ?v" by simp
  have cp: "memcpy_to ?buf (int ?ve) ?v = Inr (take ?ve ?buf @ ?v @ drop (?ve + length ?v) ?buf)"
    using assms(7) by (intro memcpy_to_nat) simp
  let ?buf1 = "take ?ve ?buf @ ?v @ drop (?ve + length ?v) ?buf"
  have len1: "length ?buf1 = length ?buf" using assms(7) by simp
  let ?k = "?ve + length ?v"
  have buf2: "?buf1[?k := NUL] = name @ NUL # sofar @ ?v @ NUL # drop (Suc ?k) ?buf"
  proof -
    have "?buf1 = (name @ NUL # sofar @ ?v) @ drop ?k ?buf"
      using assms(6) by simp
    moreover have "length (name @ NUL # sofar @ ?v) = ?k" by simp
    moreover have "drop ?k ?buf = ?buf ! ?k # drop (Suc ?k) ?buf"
      using assms(7) by (simp add: Cons_nth_drop_Suc)
    ultimately show ?thesis
      by (metis append.assoc append_Cons list_update_length)
  qed
  let ?s2 = "s\<lparr>property_str := name @ NUL # sofar @ ?v @ NUL # drop (Suc ?k) ?buf,
               value_end := int ?k + 1\<rparr>"
  have em: "emit handler clientd ?s2
           = (case handler clientd name (sofar @ ?v) of
                None \<Rightarrow> HandlerFault
              | Some (r, w') \<Rightarrow>
                  Returned r None (aeron_properties_parse_init ?s2) w' (Some (name, sofar @ ?v)))"
    using assms(4,8,9,10) by (intro emit_record [where post = "drop (Suc ?k) ?buf"]) simp_all
  have k: "?k < length ?buf" using assms(7) by simp
  have inb: "in_bounds ?buf1 (int ?k)"
    unfolding in_bounds_nat len1 by (rule k)
  have cp': "memcpy_to ?buf (value_end s) (take (length line - vs) ?v) = Inr ?buf1"
    using cp assms(5) by (simp add: tk)
  have ve: "value_end s + int (length line - vs) = int ?k"
    using assms(3,5) by simp
  have k1: "?k < length ?buf1" using k len1 by simp
  have acc: "accumulate handler clientd s line vs = emit handler clientd ?s2"
    using accumulate_emits [OF assms(1,2) cp' ve k1] buf2 by simp
  have "Suc ?k = length name + 2 + length sofar + (length line - vs)" by simp
  then show ?thesis
    unfolding acc em
    by (auto simp: aeron_properties_parse_init_def split: option.splits)
qed

lemma fits_buffer:
  assumes "value_end s = int ve" and "ve + length line < length (property_str s)"
    and "length (property_str s) < 2 ^ 64"
  shows "\<not> int (length line) \<ge> (int (length (property_str s)) - value_end s) mod 2 ^ 64"
proof -
  have "int (length (property_str s)) < 2 ^ 64"
    using assms(3) by (metis of_nat_less_iff of_nat_numeral of_nat_power)
  then have "(int (length (property_str s)) - value_end s) mod 2 ^ 64
          = int (length (property_str s)) - int ve"
    using assms(1,2) by simp
  then show ?thesis using assms(2) by simp
qed

lemma first_non_blank:
  assumes "line = ws @ c # cs" and "set ws \<subseteq> {SPC, TAB}"
    and "c \<noteq> SPC" and "c \<noteq> TAB" and "c \<noteq> NUL"
  shows "aeron_next_non_whitespace line 0 (size_pred (length line)) = int (length ws)"
    and "line_at line (length ws) = c"
proof -
  have nb: "\<not> is_blank c" using assms(3,4) by (simp add: is_blank_def)
  have "dropWhile is_blank line = c # cs" "takeWhile is_blank line = ws"
    using assms(1,2) nb by (simp_all add: blank_prefix_scan)
  then show "aeron_next_non_whitespace line 0 (size_pred (length line)) = int (length ws)"
    using assms(5) by (simp add: next_non_whitespace_line)
  show "line_at line (length ws) = c"
    using assms(1) by (simp add: line_at_def)
qed

text \<open>A continuation line that ends in a backslash.\<close>

lemma parse_line_next_fragment:
  assumes cont: "0 < name_end s" and ve: "value_end s = int ve"
    and fits: "ve + length line < length (property_str s)"
    and cap: "length (property_str s) < 2 ^ 64"
    and line: "line = ws @ body @ [BSL]" and ws: "set ws \<subseteq> {SPC, TAB}"
    and body: "body = [] \<or> hd body \<notin> {SPC, TAB, NUL, CHR ''!'', CHR ''#''}"
  shows "aeron_properties_parse_line handler clientd s line
           = Returned 0 None
               (s\<lparr>property_str := take ve (property_str s) @ body
                                      @ drop (ve + length body) (property_str s),
                  value_end := value_end s + int (length body)\<rparr>)
               clientd None"
proof -
  obtain c cs where ccs: "body @ [BSL] = c # cs"
    and c: "c \<noteq> SPC" "c \<noteq> TAB" "c \<noteq> NUL" "c \<noteq> CHR ''!''" "c \<noteq> CHR ''#''"
    using body by (cases body) auto
  have l: "line = ws @ c # cs" using line ccs by simp
  have vs: "aeron_next_non_whitespace line 0 (size_pred (length line)) = int (length ws)"
    and at: "line_at line (length ws) = c"
    using first_non_blank [OF l ws c(1,2,3)] by simp_all
  have ne: "line \<noteq> []" "last line = BSL" "length ws < length line"
    using line by simp_all
  have bd: "length line - length ws - 1 = length body"
    "take (length body) (drop (length ws) line) = body"
    using line by simp_all
  have acc: "accumulate handler clientd s line (length ws)
      = Returned 0 None
          (s\<lparr>property_str := take ve (property_str s)
                   @ take (length line - length ws - 1) (drop (length ws) line)
                   @ drop (ve + (length line - length ws - 1)) (property_str s),
             value_end := value_end s + int (length line - length ws - 1)\<rparr>)
          clientd None"
    using ne ve fits by (intro accumulate_continues) simp_all
  have "aeron_properties_parse_line handler clientd s line
          = accumulate handler clientd s line (length ws)"
    using fits_buffer [OF ve fits cap] cont vs at c
    by (simp add: aeron_properties_parse_line_def Let_def)
  then show ?thesis
    unfolding acc bd by simp
qed

subsection \<open>A record on one line\<close>

lemma store_empty_value:
  assumes "take (Suc n) buf = name @ [NUL]" and "length name = n" and "Suc n < length buf"
  shows "buf[Suc n := NUL] = name @ NUL # [] @ NUL # drop (Suc (Suc n)) buf"
proof -
  have "buf[Suc n := NUL] = take (Suc n) buf @ NUL # drop (Suc (Suc n)) buf"
    using assms(3) by (simp add: upd_conv_take_nth_drop)
  then show ?thesis using assms(1) by simp
qed

text \<open>
  Claim C2. In the new-record state, a line that passes the bound check and
  consists of leading blanks, a name, blanks, a separator \<open>:\<close> or \<open>=\<close>, and a
  remainder that does not end in a backslash makes the call hand exactly one
  record to the handler: the name as written (no leading or trailing blanks), and
  the remainder without its leading blanks, trailing blanks kept, empty when
  nothing but blanks follows the separator. The call returns what the handler
  returns and leaves both offsets zero. The name is a name of the grammar: not
  empty, starting with a byte that is neither blank nor a comment mark, ending
  with a byte that is not blank, and free of separators; name and remainder are
  bytes of a C string, hence not null.
\<close>

theorem parse_line_record:
  assumes idle: "name_end s = 0" "value_end s = 0"
    and fits: "length line < length (property_str s)"
    and cap: "length (property_str s) < 2 ^ 64"
    and line: "line = ws1 @ name @ ws2 @ [sep] @ rest"
    and ws: "set ws1 \<subseteq> {SPC, TAB}" "set ws2 \<subseteq> {SPC, TAB}"
    and sep: "sep = CHR '':'' \<or> sep = CHR ''=''"
    and name: "name \<noteq> []" "hd name \<notin> {SPC, TAB, CHR ''!'', CHR ''#''}"
      "last name \<notin> {SPC, TAB}" "\<forall>c\<in>set name. c \<notin> {CHR '':'', CHR ''='', NUL}"
    and rest: "NUL \<notin> set rest" "rest = [] \<or> last rest \<noteq> BSL"
  shows "\<exists>s'. name_end s' = 0 \<and> value_end s' = 0
           \<and> length (property_str s') = length (property_str s)
           \<and> aeron_properties_parse_line handler clientd s line
               = (case handler clientd name (dropWhile (\<lambda>c. c = SPC \<or> c = TAB) rest) of
                    None \<Rightarrow> HandlerFault
                  | Some (r, w') \<Rightarrow>
                      Returned r None s' w'
                        (Some (name, dropWhile (\<lambda>c. c = SPC \<or> c = TAB) rest)))"
proof -
  let ?buf = "property_str s"
  let ?n = "length name" and ?w = "length ws2"
  let ?v = "dropWhile is_blank rest"
  let ?vs = "Suc (length ws1 + ?n + ?w)"
  define b1 where "b1 = name @ replicate (Suc ?w) NUL @ drop (Suc (?n + ?w)) ?buf"
  let ?s1 = "s\<lparr>property_str := b1, name_end := int ?n, value_end := int ?n + 1\<rparr>"
  have blank: "(\<lambda>c. c = SPC \<or> c = TAB) = is_blank" by (auto simp: is_blank_def)
  have len: "length line = length ws1 + ?n + ?w + 1 + length rest" using line by simp
  obtain c cs where ccs: "name = c # cs" using name(1) by (cases name) auto
  have c: "c \<noteq> SPC" "c \<noteq> TAB" "c \<noteq> NUL" "c \<noteq> CHR ''!''" "c \<noteq> CHR ''#''"
    using name(2,4) ccs by auto
  have l: "line = ws1 @ c # (cs @ ws2 @ [sep] @ rest)" using line ccs by simp
  have cursor: "aeron_next_non_whitespace line 0 (size_pred (length line)) = int (length ws1)"
    and at: "line_at line (length ws1) = c"
    using first_non_blank [OF l ws(1) c(1,2,3)] by simp_all
  have dr: "drop (length ws1) line = name @ ws2 @ [sep] @ rest" using line by simp
  have nameloop: "name_loop line (length ws1) (name @ ws2 @ [sep] @ rest) s = Inr (?s1, ?vs)"
    unfolding line b1_def
    using idle(1) ws sep name(1,3,4) fits len
    by (intro name_loop_record) (auto simp: is_blank_def)
  have b1len: "length b1 = length ?buf" using fits len by (simp add: b1_def)
  have tk1: "take (Suc ?n) b1 = name @ [NUL]" by (simp add: b1_def)
  have drvs: "drop ?vs line = rest" using line by simp
  have vsle: "?vs \<le> length line" using len by simp
  have nulname: "NUL \<notin> set name" using name(4) by auto
  have nulv: "NUL \<notin> set ?v" using rest(1) set_dropWhileD by fastforce
  have scan2: "aeron_next_non_whitespace line ?vs (size_pred (length line))
        = (if ?v = [] then - 1 else int (?vs + length (takeWhile is_blank rest)))"
  proof -
    have "?v \<noteq> [] \<Longrightarrow> hd ?v \<noteq> NUL" using nulv by (cases ?v) auto
    then show ?thesis
      using next_non_whitespace_line [OF vsle] drvs by auto
  qed
  have nofit: "\<not> int (length line) \<ge> (int (length ?buf) - value_end s) mod 2 ^ 64"
    using fits_buffer [of s 0 line] idle fits cap by simp
  have enter: "aeron_properties_parse_line handler clientd s line
      = (if ?v = [] then
           (if in_bounds b1 (int ?n + 1) then
              emit handler clientd (?s1\<lparr>property_str := poke b1 (int ?n + 1) NUL,
                                        value_end := int ?n + 1 + 1\<rparr>)
            else Fault (int ?n + 1))
         else accumulate handler clientd ?s1 line (?vs + length (takeWhile is_blank rest)))"
    using nofit idle cursor at c dr nameloop scan2 name(1)
    by (simp add: aeron_properties_parse_line_def Let_def del: of_nat_add of_nat_Suc)
  show ?thesis
    unfolding blank
  proof (cases "?v = []")
    case True
    have n1: "Suc ?n < length b1" using fits len b1len by simp
    have "in_bounds b1 (int (Suc ?n))" unfolding in_bounds_nat by (rule n1)
    then have inb: "in_bounds b1 (int ?n + 1)" by (simp add: add.commute)
    have pk: "poke b1 (int ?n + 1) NUL = b1[Suc ?n := NUL]"
      by (simp add: poke_def nat_add_distrib)
    have upd: "b1[Suc ?n := NUL] = name @ NUL # [] @ NUL # drop (Suc (Suc ?n)) b1"
      using tk1 n1 by (intro store_empty_value) simp_all
    let ?s2 = "?s1\<lparr>property_str := name @ NUL # [] @ NUL # drop (Suc (Suc ?n)) b1,
                    value_end := int ?n + 1 + 1\<rparr>"
    have em: "emit handler clientd ?s2
        = (case handler clientd name [] of
             None \<Rightarrow> HandlerFault
           | Some (r, w') \<Rightarrow>
               Returned r None (aeron_properties_parse_init ?s2) w' (Some (name, [])))"
      using nulname by (intro emit_record [where post = "drop (Suc (Suc ?n)) b1"]) simp_all
    have run: "aeron_properties_parse_line handler clientd s line = emit handler clientd ?s2"
      unfolding enter using True inb by (simp only: pk upd if_True simp_thms)
    have "length (b1[Suc ?n := NUL]) = length ?buf" using b1len by simp
    then have "length (property_str (aeron_properties_parse_init ?s2)) = length ?buf"
      unfolding upd by (simp add: aeron_properties_parse_init_def)
    moreover have "name_end (aeron_properties_parse_init ?s2) = 0"
      "value_end (aeron_properties_parse_init ?s2) = 0"
      by (simp_all add: aeron_properties_parse_init_def)
    ultimately show "\<exists>s'. name_end s' = 0 \<and> value_end s' = 0
           \<and> length (property_str s') = length (property_str s)
           \<and> aeron_properties_parse_line handler clientd s line
               = (case handler clientd name ?v of
                    None \<Rightarrow> HandlerFault
                  | Some (r, w') \<Rightarrow> Returned r None s' w' (Some (name, ?v)))"
      unfolding run em True by blast
  next
    case False
    let ?vs' = "?vs + length (takeWhile is_blank rest)"
    have restne: "rest \<noteq> []" using False by auto
    then have lastl: "line \<noteq> []" "last line \<noteq> BSL" using rest(2) line by auto
    have "drop ?vs' line = drop (length (takeWhile is_blank rest)) (drop ?vs line)"
      by (simp only: drop_drop add.commute)
    then have drv: "drop ?vs' line = ?v"
      unfolding drvs by (simp only: dropWhile_eq_drop)
    have "length (drop ?vs' line) = length ?v" by (simp only: drv)
    then have lenv: "length line - ?vs' = length ?v" by (simp only: length_drop)
    have lenrest: "length ?v \<le> length rest" by (simp add: length_dropWhile_le)
    have vs'le: "?vs' \<le> length line"
      using len length_takeWhile_le [of is_blank rest] by simp
    define s3 where "s3 = ?s1\<lparr>property_str :=
                        name @ NUL # [] @ drop ?vs' line @ NUL
                          # drop (length name + 2 + length ([] :: char list)
                                   + (length line - ?vs')) (property_str ?s1),
                      name_end := 0, value_end := 0\<rparr>"
    have acc: "accumulate handler clientd ?s1 line ?vs'
        = (case handler clientd name ([] @ drop ?vs' line) of
             None \<Rightarrow> HandlerFault
           | Some (r, w') \<Rightarrow> Returned r None s3 w' (Some (name, [] @ drop ?vs' line)))"
      unfolding s3_def
    proof (rule accumulate_terminates)
      show "line \<noteq> []" "last line \<noteq> BSL" by (rule lastl)+
      show "?vs' \<le> length line" by (rule vs'le)
      show "name_end ?s1 = int (length name)" by simp
      show "value_end ?s1 = int (length name + 1 + length ([] :: char list))" by simp
      show "take (length name + 1 + length ([] :: char list)) (property_str ?s1) = name @ NUL # []"
        using tk1 by simp
      show "length name + 1 + length ([] :: char list) + (length line - ?vs')
              < length (property_str ?s1)"
        unfolding lenv using lenrest len fits b1len by simp
      show "NUL \<notin> set name" by (rule nulname)
      show "NUL \<notin> set ([] :: char list)" by simp
      show "NUL \<notin> set (drop ?vs' line)" unfolding drv by (rule nulv)
    qed
    have acc': "accumulate handler clientd ?s1 line ?vs'
        = (case handler clientd name ?v of
             None \<Rightarrow> HandlerFault
           | Some (r, w') \<Rightarrow> Returned r None s3 w' (Some (name, ?v)))"
      using acc by (simp only: drv append_Nil)
    have run: "aeron_properties_parse_line handler clientd s line
                 = accumulate handler clientd ?s1 line ?vs'"
      unfolding enter using False by (simp only: if_False)
    have "length (property_str s3) = length ?buf"
      unfolding s3_def lenv drv using lenrest len fits b1len by simp
    moreover have "name_end s3 = 0" "value_end s3 = 0" by (simp_all add: s3_def)
    ultimately show "\<exists>s'. name_end s' = 0 \<and> value_end s' = 0
           \<and> length (property_str s') = length (property_str s)
           \<and> aeron_properties_parse_line handler clientd s line
               = (case handler clientd name ?v of
                    None \<Rightarrow> HandlerFault
                  | Some (r, w') \<Rightarrow> Returned r None s' w' (Some (name, ?v)))"
      unfolding run acc' by blast
  qed
qed

theorem parse_line_record_witness:
  "(\<exists>s'. name_end s' = 0 \<and> value_end s' = 0 \<and> length (property_str s') = length ''xxxxxxxxxxxxxxxx''
      \<and> aeron_properties_parse_line recording_handler []
            \<lparr>property_str = ''xxxxxxxxxxxxxxxx'', name_end = 0, value_end = 0\<rparr> ''  N  =  V  ''
          = Returned 0 None s' [(''N'', ''V  '')] (Some (''N'', ''V  '')))
   \<and> (\<exists>s'. name_end s' = 0 \<and> value_end s' = 0 \<and> length (property_str s') = length ''xxxxxxxxxxxxxxxx''
      \<and> aeron_properties_parse_line recording_handler []
            \<lparr>property_str = ''xxxxxxxxxxxxxxxx'', name_end = 0, value_end = 0\<rparr> ''N=V''
          = Returned 0 None s' [(''N'', ''V'')] (Some (''N'', ''V'')))
   \<and> (\<exists>s'. name_end s' = 0 \<and> value_end s' = 0 \<and> length (property_str s') = length ''xxxxxxxxxxxxxxxx''
      \<and> aeron_properties_parse_line recording_handler []
            \<lparr>property_str = ''xxxxxxxxxxxxxxxx'', name_end = 0, value_end = 0\<rparr> ''N:''
          = Returned 0 None s' [(''N'', [])] (Some (''N'', [])))"
proof -
  let ?z = "\<lparr>property_str = ''xxxxxxxxxxxxxxxx'', name_end = 0, value_end = 0\<rparr>"
  have "\<exists>s'. name_end s' = 0 \<and> value_end s' = 0
         \<and> length (property_str s') = length (property_str ?z)
         \<and> aeron_properties_parse_line recording_handler [] ?z (''  '' @ ''N'' @ ''  '' @ [CHR ''=''] @ ''  V  '')
               = (case recording_handler [] ''N'' (dropWhile (\<lambda>c. c = SPC \<or> c = TAB) ''  V  '') of
                    None \<Rightarrow> HandlerFault
                  | Some (r, w') \<Rightarrow>
                      Returned r None s' w'
                        (Some (''N'', dropWhile (\<lambda>c. c = SPC \<or> c = TAB) ''  V  '')))"
    by (rule parse_line_record [where ?ws1.0 = "''  ''" and ?ws2.0 = "''  ''"
          and sep = "CHR ''=''" and name = "''N''" and rest = "''  V  ''"]) simp_all
  then have a: "\<exists>s'. name_end s' = 0 \<and> value_end s' = 0 \<and> length (property_str s') = length ''xxxxxxxxxxxxxxxx''
      \<and> aeron_properties_parse_line recording_handler [] ?z ''  N  =  V  ''
          = Returned 0 None s' [(''N'', ''V  '')] (Some (''N'', ''V  ''))"
    by (simp add: recording_handler_def)
  have "\<exists>s'. name_end s' = 0 \<and> value_end s' = 0
         \<and> length (property_str s') = length (property_str ?z)
         \<and> aeron_properties_parse_line recording_handler [] ?z ([] @ ''N'' @ [] @ [CHR ''=''] @ ''V'')
               = (case recording_handler [] ''N'' (dropWhile (\<lambda>c. c = SPC \<or> c = TAB) ''V'') of
                    None \<Rightarrow> HandlerFault
                  | Some (r, w') \<Rightarrow>
                      Returned r None s' w'
                        (Some (''N'', dropWhile (\<lambda>c. c = SPC \<or> c = TAB) ''V'')))"
    by (rule parse_line_record [where ?ws1.0 = "[]" and ?ws2.0 = "[]"
          and sep = "CHR ''=''" and name = "''N''" and rest = "''V''"]) simp_all
  then have b: "\<exists>s'. name_end s' = 0 \<and> value_end s' = 0 \<and> length (property_str s') = length ''xxxxxxxxxxxxxxxx''
      \<and> aeron_properties_parse_line recording_handler [] ?z ''N=V''
          = Returned 0 None s' [(''N'', ''V'')] (Some (''N'', ''V''))"
    by (simp add: recording_handler_def)
  have "\<exists>s'. name_end s' = 0 \<and> value_end s' = 0
         \<and> length (property_str s') = length (property_str ?z)
         \<and> aeron_properties_parse_line recording_handler [] ?z ([] @ ''N'' @ [] @ [CHR '':''] @ [])
               = (case recording_handler [] ''N'' (dropWhile (\<lambda>c. c = SPC \<or> c = TAB) []) of
                    None \<Rightarrow> HandlerFault
                  | Some (r, w') \<Rightarrow>
                      Returned r None s' w'
                        (Some (''N'', dropWhile (\<lambda>c. c = SPC \<or> c = TAB) [])))"
    by (rule parse_line_record [where ?ws1.0 = "[]" and ?ws2.0 = "[]"
          and sep = "CHR '':''" and name = "''N''" and rest = "[]"]) simp_all
  then have c: "\<exists>s'. name_end s' = 0 \<and> value_end s' = 0 \<and> length (property_str s') = length ''xxxxxxxxxxxxxxxx''
      \<and> aeron_properties_parse_line recording_handler [] ?z ''N:''
          = Returned 0 None s' [(''N'', [])] (Some (''N'', []))"
    by (simp add: recording_handler_def)
  from a b c show ?thesis by (intro conjI)
qed

subsection \<open>A separator after leading blanks\<close>

text \<open>
  When the first byte after the leading blanks of a new-record line is the
  separator, the name is empty and the trim loop, which walks back from the
  separator to the start of the line, meets the leading blanks: for each of them
  it decrements \<^verbatim>\<open>name_end\<close>, which is already \<open>0\<close>, and stores a null at
  the new index. The first such store is at index \<open>-1\<close>.
\<close>

text \<open>
  Claim C1 says that a new-record line whose name is empty after trimming is
  rejected with \<open>-1\<close> and a reset. On the line of two blanks, \<open>=\<close> and \<open>V\<close>
  the call does not return \<open>-1\<close>: it stores outside the buffer at index
  \<open>-1\<close>. (With two leading blanks \<^verbatim>\<open>name_end\<close> becomes \<open>-2\<close> and
  \<^verbatim>\<open>value_end\<close> becomes \<open>-1\<close>, so that neither is \<open>0\<close> at the test for a
  malformed line.)
\<close>

theorem parse_line_empty_name_not_rejected:
  "aeron_properties_parse_line recording_handler []
     \<lparr>property_str = ''xxxxxxxxxxxxxxxx'', name_end = 0, value_end = 0\<rparr> ''  =V''
   = Fault (- 1)"
  by code_simp

text \<open>
  Claim C10 says that every store of a call that passes the bound check is inside
  the buffer and that the trim loop never takes \<^verbatim>\<open>name_end\<close> below zero. On
  the line of one blank, \<open>=\<close> and \<open>V\<close>, in the zero state, the trim loop is
  entered with \<^verbatim>\<open>name_end\<close> \<open>0\<close> and stores at index \<open>-1\<close>.
\<close>

theorem parse_line_trim_writes_below_buffer:
  "aeron_properties_parse_line recording_handler []
     \<lparr>property_str = ''xxxxxxxxxxxxxxxx'', name_end = 0, value_end = 0\<rparr> '' =V''
   = Fault (- 1)
   \<and> trim_name '' =V'' 1 (NUL # ''xxxxxxxxxxxxxxx'') 0 = Inl (- 1)"
  by code_simp

text \<open>
  Claim C6 says that after every call the state is the zero state or satisfies
  \<open>0 < name_end < value_end \<le> capacity\<close>. On the line of two tabs, \<open>:\<close>,
  \<open>V\<close> and a backslash, in the zero state, the call leaves no such state: it
  stores outside the buffer at index \<open>-1\<close> (and the offsets the C code goes on
  with are \<open>-2\<close> and \<open>-1\<close>).
\<close>

theorem parse_line_invariant_broken:
  "aeron_properties_parse_line recording_handler []
     \<lparr>property_str = ''xxxxxxxxxxxxxxxx'', name_end = 0, value_end = 0\<rparr>
     ([TAB, TAB] @ '':V'' @ [BSL])
   = Fault (- 1)"
  by code_simp

subsection \<open>The loader on an empty line\<close>

text \<open>
  Claim C9 says that a raw line ending in a newline has the newline stripped,
  and a carriage return before it, and is then handed to the parser. For the raw
  line that is a newline only, \<^verbatim>\<open>length\<close> is \<open>0\<close> after the newline is
  stripped, and the test for the carriage return reads \<^verbatim>\<open>line[length - 1]\<close>,
  outside the array: the load of a file with an empty second line ends there,
  outside defined behaviour.
\<close>

theorem file_load_empty_line:
  "aeron_properties_file_load 32 [] (Some (''a=b'' @ [LF] @ [LF] @ ''c=d'' @ [LF], False)) Map.empty
   = LoadFault"
proof -
  let ?run = "aeron_properties_file_load 32 []
                (Some (''a=b'' @ [LF] @ [LF] @ ''c=d'' @ [LF], False)) Map.empty"
  have "case ?run of LoadFault \<Rightarrow> True | Loaded rc err closed e \<Rightarrow> False"
    by code_simp
  then show ?thesis by (cases ?run) simp_all
qed

subsection \<open>Malformed lines that are rejected\<close>

text \<open>A new-record line without separator, and one that starts with the separator,
  are rejected with \<open>-1\<close> and the offsets are reset.\<close>

lemma parse_line_no_separator:
  assumes idle: "name_end s = 0" "value_end s = 0"
    and fits: "length line < length (property_str s)"
    and cap: "length (property_str s) < 2 ^ 64"
    and line: "line = ws @ c # cs" and ws: "set ws \<subseteq> {SPC, TAB}"
    and c: "c \<notin> {SPC, TAB, NUL, CHR ''!'', CHR ''#''}"
    and nosep: "\<forall>x\<in>set (c # cs). x \<noteq> CHR '':'' \<and> x \<noteq> CHR ''=''"
  shows "aeron_properties_parse_line handler clientd s line
           = Returned (- 1) (Some MalformedLine)
               (s\<lparr>property_str := c # cs @ drop (Suc (length cs)) (property_str s),
                  name_end := 0, value_end := 0\<rparr>)
               clientd None"
proof -
  have c': "c \<noteq> SPC" "c \<noteq> TAB" "c \<noteq> NUL" "c \<noteq> CHR ''!''" "c \<noteq> CHR ''#''"
    using c by auto
  have cursor: "aeron_next_non_whitespace line 0 (size_pred (length line)) = int (length ws)"
    and at: "line_at line (length ws) = c"
    using first_non_blank [OF line ws c'(1,2,3)] by simp_all
  have dr: "drop (length ws) line = c # cs" using line by simp
  have "length (c # cs) \<le> length (property_str s)" using fits line by simp
  then have loop: "name_loop line (length ws) (c # cs) s
      = Inr (s\<lparr>property_str := (c # cs) @ drop (length (c # cs)) (property_str s),
               name_end := int (length (c # cs))\<rparr>, 0)"
    using nosep idle(1) by (intro name_loop_no_separator) simp_all
  have nofit: "\<not> int (length line) \<ge> (int (length (property_str s)) - value_end s) mod 2 ^ 64"
    using fits_buffer [of s 0 line] idle fits cap by simp
  show ?thesis
    using nofit idle cursor at c' dr loop
    by (simp add: aeron_properties_parse_line_def Let_def aeron_properties_parse_init_def
        del: of_nat_Suc)
qed

lemma parse_line_separator_first:
  assumes idle: "name_end s = 0" "value_end s = 0"
    and fits: "length line < length (property_str s)"
    and cap: "length (property_str s) < 2 ^ 64"
    and line: "line = sep # rest" and sep: "sep = CHR '':'' \<or> sep = CHR ''=''"
  shows "aeron_properties_parse_line handler clientd s line
           = Returned (- 1) (Some MalformedLine)
               (s\<lparr>property_str := (property_str s)[0 := NUL], name_end := 0, value_end := 0\<rparr>)
               clientd None"
proof -
  have sep': "sep \<noteq> SPC" "sep \<noteq> TAB" "sep \<noteq> NUL" "sep \<noteq> CHR ''!''" "sep \<noteq> CHR ''#''"
    using sep by auto
  have l: "line = [] @ sep # rest" using line by simp
  have cursor: "aeron_next_non_whitespace line 0 (size_pred (length line)) = 0"
    and at: "line_at line 0 = sep"
    using first_non_blank [OF l _ sep'(1,2,3)] by simp_all
  have nofit: "\<not> int (length line) \<ge> (int (length (property_str s)) - value_end s) mod 2 ^ 64"
    using fits_buffer [of s 0 line] idle fits cap by simp
  have inb: "in_bounds (property_str s) 0" using fits by (cases "property_str s") (simp_all add: in_bounds_def)
  show ?thesis
    using nofit idle cursor at sep sep' inb line
    by (auto simp: aeron_properties_parse_line_def Let_def aeron_properties_parse_init_def
        poke_def)
qed

subsection \<open>The invariant is kept by every call that returns\<close>

lemma trim_name_result:
  assumes "trim_name line j buf ne = Inr (buf', ne')"
    and "0 \<le> ne" and "ne < int (length buf)" and "buf ! nat ne = NUL"
  shows "0 \<le> ne' \<and> ne' \<le> ne \<and> length buf' = length buf \<and> buf' ! nat ne' = NUL"
  using assms
proof (induction j arbitrary: buf ne)
  case 0
  then show ?case by simp
next
  case (Suc j)
  show ?case
  proof (cases "SPC \<noteq> line_at line j \<and> TAB \<noteq> line_at line j")
    case True
    then show ?thesis using Suc.prems by simp
  next
    case False
    then have inb: "in_bounds buf (ne - 1)"
      and rec: "trim_name line j (poke buf (ne - 1) NUL) (ne - 1) = Inr (buf', ne')"
      using Suc.prems(1) by (auto split: if_splits)
    have "0 \<le> ne' \<and> ne' \<le> ne - 1 \<and> length buf' = length (poke buf (ne - 1) NUL)
            \<and> buf' ! nat ne' = NUL"
      using rec inb Suc.prems(3) by (intro Suc.IH) (simp_all add: in_bounds_def poke_def)
    then show ?thesis by (simp add: poke_def)
  qed
qed

lemma name_loop_result:
  assumes "name_loop line i xs s = Inr (s1, vs)" and "0 \<le> name_end s"
  shows "length (property_str s1) = length (property_str s)
         \<and> (value_end s1 = value_end s
            \<or> (0 \<le> name_end s1 \<and> name_end s1 < int (length (property_str s1))
               \<and> value_end s1 = name_end s1 + 1
               \<and> property_str s1 ! nat (name_end s1) = NUL))"
  using assms
proof (induction xs arbitrary: i s)
  case Nil
  then show ?case by simp
next
  case (Cons c cs)
  have inb: "in_bounds (property_str s) (name_end s)"
    using Cons.prems(1) by (auto split: if_splits)
  show ?case
  proof (cases "CHR '':'' = c \<or> CHR ''='' = c")
    case True
    let ?buf = "poke (property_str s) (name_end s) NUL"
    from True inb Cons.prems(1) obtain buf' ne'
      where tr: "trim_name line i ?buf (name_end s) = Inr (buf', ne')"
        and s1: "s1 = s\<lparr>property_str := buf', name_end := ne', value_end := ne' + 1\<rparr>"
      by (auto split: sum.splits)
    have "0 \<le> ne' \<and> ne' \<le> name_end s \<and> length buf' = length ?buf \<and> buf' ! nat ne' = NUL"
      using tr inb Cons.prems(2) by (intro trim_name_result) (simp_all add: in_bounds_def poke_def)
    then show ?thesis
      using s1 inb by (simp add: poke_def in_bounds_def)
  next
    case False
    let ?s' = "s\<lparr>property_str := poke (property_str s) (name_end s) c,
                  name_end := name_end s + 1\<rparr>"
    have rec: "name_loop line (Suc i) cs ?s' = Inr (s1, vs)"
      using False inb Cons.prems(1) by simp
    have "length (property_str s1) = length (property_str ?s')
         \<and> (value_end s1 = value_end ?s'
            \<or> (0 \<le> name_end s1 \<and> name_end s1 < int (length (property_str s1))
               \<and> value_end s1 = name_end s1 + 1
               \<and> property_str s1 ! nat (name_end s1) = NUL))"
    proof (rule Cons.IH [OF rec])
      show "0 \<le> name_end ?s'" using Cons.prems(2) by simp
    qed
    then show ?thesis by (auto simp: poke_def)
  qed
qed

lemma memcpy_to_below:
  assumes "memcpy_to buf off src = Inr buf'" and "0 \<le> k" and "k < off"
  shows "buf' ! nat k = buf ! nat k"
  using assms
proof (induction src arbitrary: buf off)
  case Nil
  then show ?case by simp
next
  case (Cons c cs)
  then have rec: "memcpy_to (poke buf off c) (off + 1) cs = Inr buf'"
    by (auto split: if_splits)
  have "buf' ! nat k = poke buf off c ! nat k"
    using Cons.IH [OF rec] Cons.prems(2,3) by simp
  then show ?case using Cons.prems(2,3) by (simp add: poke_def)
qed

lemma memcpy_to_end:
  assumes "memcpy_to buf off src = Inr buf'" and "src \<noteq> []"
  shows "off + int (length src) \<le> int (length buf)"
  using assms
proof (induction src arbitrary: buf off)
  case Nil
  then show ?case by simp
next
  case (Cons c cs)
  then have inb: "in_bounds buf off"
    and rec: "memcpy_to (poke buf off c) (off + 1) cs = Inr buf'"
    by (auto split: if_splits)
  show ?case
  proof (cases cs)
    case Nil
    then show ?thesis using inb by (simp add: in_bounds_def)
  next
    case (Cons d ds)
    then have "off + 1 + int (length cs) \<le> int (length (poke buf off c))"
      using rec Cons.IH by blast
    then show ?thesis by (simp add: poke_def)
  qed
qed

lemma accumulate_result:
  assumes "accumulate handler clientd s line vs = Returned rc e s' w' em"
  shows "(name_end s' = 0 \<and> value_end s' = 0)
         \<or> (em = None \<and> e = None \<and> name_end s' = name_end s
            \<and> (\<exists>src. memcpy_to (property_str s) (value_end s) src = Inr (property_str s')
                      \<and> value_end s' = value_end s + int (length src)))"
proof (cases "BSL = line_at line (length line - 1)")
  case True
  let ?src = "take (length line - vs - 1) (drop vs line)"
  have len: "length ?src = length line - vs - 1" by simp
  from True assms obtain buf where cp: "memcpy_to (property_str s) (value_end s) ?src = Inr buf"
    and s': "s' = s\<lparr>property_str := buf,
                      value_end := value_end s + int (length line - vs - 1)\<rparr>"
    and em: "em = None" "e = None"
    by (auto simp: accumulate_def split: sum.splits)
  have "memcpy_to (property_str s) (value_end s) ?src = Inr (property_str s')
          \<and> value_end s' = value_end s + int (length ?src)"
    using cp s' by (simp only: len) simp
  then show ?thesis using em s' by auto
next
  case False
  then have "name_end s' = 0 \<and> value_end s' = 0"
    using assms
    by (auto simp: accumulate_def Let_def aeron_properties_parse_init_def
        split: sum.splits if_splits dest!: emit_Returned)
  then show ?thesis by simp
qed

lemma accumulate_invariant:
  assumes acc: "accumulate handler clientd s line vs = Returned rc e s' w' em"
    and inv: "0 < name_end s" "name_end s < value_end s"
      "value_end s \<le> int (length (property_str s))"
      "property_str s ! nat (name_end s) = NUL"
  shows "parser_inv s' \<and> ((em \<noteq> None \<or> e = Some MalformedLine)
           \<longrightarrow> name_end s' = 0 \<and> value_end s' = 0)"
  using accumulate_result [OF acc]
proof
  assume "name_end s' = 0 \<and> value_end s' = 0"
  then show ?thesis by (simp add: parser_inv_def)
next
  assume r: "em = None \<and> e = None \<and> name_end s' = name_end s
            \<and> (\<exists>src. memcpy_to (property_str s) (value_end s) src = Inr (property_str s')
                      \<and> value_end s' = value_end s + int (length src))"
  then obtain src where cp: "memcpy_to (property_str s) (value_end s) src = Inr (property_str s')"
    and ve: "value_end s' = value_end s + int (length src)" by blast
  have len: "length (property_str s') = length (property_str s)"
    using cp by (rule length_memcpy_to)
  have "value_end s' \<le> int (length (property_str s))"
    using memcpy_to_end [OF cp] ve inv(3) by (cases src) auto
  moreover have "property_str s' ! nat (name_end s) = NUL"
    using memcpy_to_below [OF cp, of "name_end s"] inv by simp
  ultimately show ?thesis
    using r ve inv len by (simp add: parser_inv_def)
qed

lemma parse_line_preserves_invariant:
  assumes inv: "parser_inv s"
    and run: "aeron_properties_parse_line handler clientd s line = Returned rc e s' w' em"
  shows "parser_inv s' \<and> ((em \<noteq> None \<or> e = Some MalformedLine)
           \<longrightarrow> name_end s' = 0 \<and> value_end s' = 0)"
proof (cases "int (length line) \<ge> (int (length (property_str s)) - value_end s) mod 2 ^ 64")
  case True
  then show ?thesis using run inv by (auto simp: aeron_properties_parse_line_def)
next
  case fits: False
  let ?vs = "aeron_next_non_whitespace line 0 (size_pred (length line))"
  show ?thesis
  proof (cases "0 < name_end s")
    case True
    with inv have inv': "0 < name_end s" "name_end s < value_end s"
      "value_end s \<le> int (length (property_str s))"
      "property_str s ! nat (name_end s) = NUL"
      by (auto simp: parser_inv_def)
    show ?thesis
    proof (cases "- 1 = ?vs \<or> CHR ''!'' = line_at line (nat ?vs) \<or> CHR ''#'' = line_at line (nat ?vs)")
      case True
      then show ?thesis
        using run inv fits \<open>0 < name_end s\<close>
        by (auto simp: aeron_properties_parse_line_def Let_def)
    next
      case False
      then have "accumulate handler clientd s line (nat ?vs) = Returned rc e s' w' em"
        using run fits \<open>0 < name_end s\<close>
        by (auto simp: aeron_properties_parse_line_def Let_def)
      then show ?thesis using inv' by (rule accumulate_invariant)
    qed
  next
    case False
    with inv have idle: "name_end s = 0" "value_end s = 0" by (auto simp: parser_inv_def)
    show ?thesis
    proof (cases "- 1 = ?vs \<or> CHR ''!'' = line_at line (nat ?vs) \<or> CHR ''#'' = line_at line (nat ?vs)")
      case True
      then show ?thesis
        using run inv fits idle
        by (auto simp: aeron_properties_parse_line_def Let_def)
    next
      case nocomment: False
      then obtain s1 vs where nl: "name_loop line (nat ?vs) (drop (nat ?vs) line) s = Inr (s1, vs)"
        using run fits idle
        by (auto simp: aeron_properties_parse_line_def Let_def split: sum.splits)
      let ?vs2 = "aeron_next_non_whitespace line vs (size_pred (length line))"
      have after: "(if 0 = value_end s1 \<or> 0 = name_end s1 then
                 Returned (- 1) (Some MalformedLine) (aeron_properties_parse_init s1) clientd None
               else if - 1 = ?vs2 then
                 (if in_bounds (property_str s1) (value_end s1) then
                    emit handler clientd
                      (s1\<lparr>property_str := poke (property_str s1) (value_end s1) NUL,
                          value_end := value_end s1 + 1\<rparr>)
                  else Fault (value_end s1))
               else accumulate handler clientd s1 line (nat ?vs2))
             = Returned rc e s' w' em"
        using run fits idle nocomment nl
        by (simp add: aeron_properties_parse_line_def Let_def cong: if_cong)
      have res: "length (property_str s1) = length (property_str s)
         \<and> (value_end s1 = value_end s
            \<or> (0 \<le> name_end s1 \<and> name_end s1 < int (length (property_str s1))
               \<and> value_end s1 = name_end s1 + 1
               \<and> property_str s1 ! nat (name_end s1) = NUL))"
        using nl idle(1) by (intro name_loop_result) simp_all
      show ?thesis
      proof (cases "0 = value_end s1 \<or> 0 = name_end s1")
        case True
        then show ?thesis
          using after by (auto simp: parser_inv_def aeron_properties_parse_init_def)
      next
        case ok: False
        with res idle have s1: "0 < name_end s1" "name_end s1 < value_end s1"
          "value_end s1 \<le> int (length (property_str s1))"
          "property_str s1 ! nat (name_end s1) = NUL"
          by auto
        show ?thesis
        proof (cases "- 1 = ?vs2")
          case True
          then have "name_end s' = 0 \<and> value_end s' = 0"
            using after ok
            by (auto simp: aeron_properties_parse_init_def split: if_splits dest!: emit_Returned)
          then show ?thesis by (simp add: parser_inv_def)
        next
          case False
          then have "accumulate handler clientd s1 line (nat ?vs2) = Returned rc e s' w' em"
            using after ok by simp
          then show ?thesis using s1 by (rule accumulate_invariant)
        qed
      qed
    qed
  qed
qed

subsection \<open>The only store outside the buffer\<close>

text \<open>
  From a state that satisfies the invariant and for a line that passes the bound
  check, the handler's strings are always null-terminated inside the buffer and
  every store is inside it, with one exception: a new-record line on which the
  separator follows one or more leading blanks directly; then the store is at
  index \<open>-1\<close>.
\<close>

lemma nth_in_drop:
  assumes "k \<le> j" and "j < length xs"
  shows "xs ! j \<in> set (drop k xs)"
proof -
  have "drop k xs ! (j - k) = xs ! j" using assms by simp
  moreover have "j - k < length (drop k xs)" using assms by simp
  ultimately show ?thesis using nth_mem [of "j - k" "drop k xs"] by simp
qed

lemma c_str_defined:
  assumes "0 \<le> off" and "off \<le> j" and "j < int (length buf)" and "buf ! nat j = NUL"
  shows "c_str buf off \<noteq> None"
proof -
  have "buf ! nat j \<in> set (drop (nat off) buf)"
    using assms(1-3) by (intro nth_in_drop) simp_all
  then show ?thesis using assms by (simp add: c_str_def in_bounds_def)
qed

lemma emit_no_fault:
  assumes "0 \<le> name_end s" and "name_end s < j" and "j < int (length (property_str s))"
    and "property_str s ! nat (name_end s) = NUL" and "property_str s ! nat j = NUL"
  shows "emit handler clientd s \<noteq> Fault k"
proof -
  have "c_str (property_str s) 0 \<noteq> None"
    using assms(1-4) by (intro c_str_defined [where j = "name_end s"]) simp_all
  moreover have "c_str (property_str s) (name_end s + 1) \<noteq> None"
    using assms(1,2,3,5) by (intro c_str_defined [where j = j]) simp_all
  ultimately show ?thesis
    by (auto simp: emit_def split: option.splits)
qed

lemma accumulate_no_fault:
  assumes ne: "0 < name_end s" "name_end s < value_end s"
    and nul: "property_str s ! nat (name_end s) = NUL"
    and fits: "value_end s + int (length line - vs) < int (length (property_str s))"
  shows "accumulate handler clientd s line vs \<noteq> Fault k"
proof -
  let ?buf = "property_str s"
  obtain ve where ve: "value_end s = int ve" using ne by (cases "value_end s") auto
  have room: "ve + (length line - vs) < length ?buf" using fits ve by simp
  have cp: "memcpy_to ?buf (value_end s) (take n (drop vs line))
              = Inr (take ve ?buf @ take n (drop vs line)
                       @ drop (ve + length (take n (drop vs line))) ?buf)" for n
    unfolding ve using room by (intro memcpy_to_nat) simp
  show ?thesis
  proof (cases "BSL = line_at line (length line - 1)")
    case True
    then show ?thesis using cp [of "length line - vs - 1"] by (simp add: accumulate_def)
  next
    case False
    let ?src = "take (length line - vs) (drop vs line)"
    let ?buf1 = "take ve ?buf @ ?src @ drop (ve + length ?src) ?buf"
    let ?j = "value_end s + int (length line - vs)"
    let ?s2 = "s\<lparr>property_str := poke ?buf1 ?j NUL, value_end := ?j + 1\<rparr>"
    have len1: "length ?buf1 = length ?buf" using room by simp
    have inb: "in_bounds ?buf1 ?j"
      using fits ve len1 by (simp only: in_bounds_def) simp
    have acc: "accumulate handler clientd s line vs = emit handler clientd ?s2"
      using False cp [of "length line - vs"] inb by (simp add: accumulate_def Let_def)
    have below: "?buf1 ! nat (name_end s) = ?buf ! nat (name_end s)"
      using cp [of "length line - vs"] ne by (intro memcpy_to_below [where off = "value_end s"]) simp_all
    have j: "nat ?j < length ?buf1" "nat (name_end s) \<noteq> nat ?j"
      using fits ve len1 ne by simp_all
    have "emit handler clientd ?s2 \<noteq> Fault k"
    proof (rule emit_no_fault [where j = ?j])
      show "0 \<le> name_end ?s2" using ne by simp
      show "name_end ?s2 < ?j" using ne by simp
      show "?j < int (length (property_str ?s2))"
        using fits len1 by (simp add: poke_def del: length_append length_take length_drop)
      show "property_str ?s2 ! nat (name_end ?s2) = NUL"
        using below nul j by (simp add: poke_def del: nth_append)
      show "property_str ?s2 ! nat ?j = NUL"
        using j by (simp add: poke_def del: nth_append length_append)
    qed
    then show ?thesis unfolding acc .
  qed
qed

lemma split_at_separator:
  obtains "\<forall>x\<in>set xs. x \<noteq> CHR '':'' \<and> x \<noteq> CHR ''=''"
  | pre sep post where "xs = pre @ sep # post" "sep = CHR '':'' \<or> sep = CHR ''=''"
      "\<forall>x\<in>set pre. x \<noteq> CHR '':'' \<and> x \<noteq> CHR ''=''"
proof (cases "\<forall>x\<in>set xs. x \<noteq> CHR '':'' \<and> x \<noteq> CHR ''=''")
  case True
  then show ?thesis by (rule that(1))
next
  case False
  let ?P = "\<lambda>x. x \<noteq> CHR '':'' \<and> x \<noteq> CHR ''=''"
  have "dropWhile ?P xs \<noteq> []" using False by (simp add: dropWhile_eq_Nil_conv)
  then obtain sep post where d: "dropWhile ?P xs = sep # post" by (cases "dropWhile ?P xs") auto
  have "\<not> ?P (hd (dropWhile ?P xs))"
    using \<open>dropWhile ?P xs \<noteq> []\<close> by (rule hd_dropWhile)
  then have sep: "sep = CHR '':'' \<or> sep = CHR ''=''" using d by simp
  have split: "xs = takeWhile ?P xs @ sep # post"
    using takeWhile_dropWhile_id [of ?P xs] d by simp
  have pre: "\<forall>x\<in>set (takeWhile ?P xs). x \<noteq> CHR '':'' \<and> x \<noteq> CHR ''=''"
    by (auto dest: set_takeWhileD)
  show ?thesis using split sep pre by (rule that(2))
qed

lemma split_trailing_blanks:
  assumes "pre \<noteq> []" and "\<not> is_blank (hd pre)"
  obtains name ws2 where "pre = name @ ws2" "set ws2 \<subseteq> {SPC, TAB}" "name \<noteq> []"
    "\<not> is_blank (last name)"
proof -
  let ?name = "rev (dropWhile is_blank (rev pre))"
  let ?ws2 = "rev (takeWhile is_blank (rev pre))"
  have "rev (rev pre) = rev (takeWhile is_blank (rev pre) @ dropWhile is_blank (rev pre))"
    by (simp only: takeWhile_dropWhile_id)
  then have eq: "pre = ?name @ ?ws2"
    by (simp only: rev_append rev_rev_ident)
  have blanks: "set ?ws2 \<subseteq> {SPC, TAB}"
    using set_takeWhileD [of _ is_blank "rev pre"] by (auto simp: is_blank_def)
  have "\<exists>x\<in>set (rev pre). \<not> is_blank x"
    using assms by (auto intro: bexI [of _ "hd pre"])
  then have ne: "dropWhile is_blank (rev pre) \<noteq> []" by (simp add: dropWhile_eq_Nil_conv)
  then have "\<not> is_blank (hd (dropWhile is_blank (rev pre)))" by (rule hd_dropWhile)
  then have "\<not> is_blank (last ?name)" using ne by (simp add: last_rev)
  with eq blanks ne show ?thesis using that by simp
qed

lemma parse_line_record_enter:
  assumes idle: "name_end s = 0" "value_end s = 0"
    and fits: "length line < length (property_str s)"
    and cap: "length (property_str s) < 2 ^ 64"
    and line: "line = ws1 @ name @ ws2 @ [sep] @ rest"
    and ws: "set ws1 \<subseteq> {SPC, TAB}" "set ws2 \<subseteq> {SPC, TAB}"
    and sep: "sep = CHR '':'' \<or> sep = CHR ''=''"
    and name: "name \<noteq> []" "hd name \<notin> {SPC, TAB, NUL, CHR ''!'', CHR ''#''}"
      "\<not> is_blank (last name)" "\<forall>c\<in>set name. c \<noteq> CHR '':'' \<and> c \<noteq> CHR ''=''"
    and b1: "b1 = name @ replicate (Suc (length ws2)) NUL
                    @ drop (Suc (length name + length ws2)) (property_str s)"
    and s1: "s1 = s\<lparr>property_str := b1, name_end := int (length name),
                       value_end := int (length name) + 1\<rparr>"
    and vs: "vs = Suc (length ws1 + length name + length ws2)"
  shows "aeron_properties_parse_line handler clientd s line
      = (if - 1 = aeron_next_non_whitespace line vs (size_pred (length line)) then
           (if in_bounds b1 (int (length name) + 1) then
              emit handler clientd (s1\<lparr>property_str := poke b1 (int (length name) + 1) NUL,
                                        value_end := int (length name) + 1 + 1\<rparr>)
            else Fault (int (length name) + 1))
         else accumulate handler clientd s1 line
                (nat (aeron_next_non_whitespace line vs (size_pred (length line)))))"
proof -
  obtain c cs where ccs: "name = c # cs" using name(1) by (cases name) auto
  have c: "c \<noteq> SPC" "c \<noteq> TAB" "c \<noteq> NUL" "c \<noteq> CHR ''!''" "c \<noteq> CHR ''#''"
    using name(2) ccs by auto
  have l: "line = ws1 @ c # (cs @ ws2 @ [sep] @ rest)" using line ccs by simp
  have cursor: "aeron_next_non_whitespace line 0 (size_pred (length line)) = int (length ws1)"
    and at: "line_at line (length ws1) = c"
    using first_non_blank [OF l ws(1) c(1,2,3)] by simp_all
  have dr: "drop (length ws1) line = name @ ws2 @ [sep] @ rest" using line by simp
  have len: "length line = length ws1 + length name + length ws2 + 1 + length rest"
    using line by simp
  have nameloop: "name_loop line (length ws1) (name @ ws2 @ [sep] @ rest) s = Inr (s1, vs)"
    unfolding line b1 s1 vs
    using idle(1) ws sep name(1,3,4) fits len
    by (intro name_loop_record) simp_all
  have nofit: "\<not> int (length line) \<ge> (int (length (property_str s)) - value_end s) mod 2 ^ 64"
    using fits_buffer [of s 0 line] idle fits cap by simp
  have s1': "value_end s1 = int (length name) + 1" "name_end s1 = int (length name)"
    "property_str s1 = b1"
    by (simp_all add: s1)
  show ?thesis
    using nofit idle cursor at c dr nameloop name(1) s1'
    by (simp add: aeron_properties_parse_line_def Let_def del: of_nat_add of_nat_Suc)
qed

lemma first_non_blank_split:
  assumes "aeron_next_non_whitespace line 0 (size_pred (length line)) \<noteq> - 1"
  obtains ws c cs where "line = ws @ c # cs" "set ws \<subseteq> {SPC, TAB}"
    "c \<noteq> SPC" "c \<noteq> TAB" "c \<noteq> NUL"
proof -
  let ?d = "dropWhile is_blank line"
  have d: "?d \<noteq> []" "hd ?d \<noteq> NUL"
    using assms next_non_whitespace_line [of 0 line] by (auto split: if_splits)
  then obtain c cs where ccs: "?d = c # cs" by (cases ?d) auto
  have "\<not> is_blank (hd ?d)" using d(1) by (rule hd_dropWhile)
  then have c: "c \<noteq> SPC" "c \<noteq> TAB" "c \<noteq> NUL"
    using ccs d(2) by (auto simp: is_blank_def)
  have "line = takeWhile is_blank line @ c # cs"
    using takeWhile_dropWhile_id [of is_blank line] ccs by simp
  moreover have "set (takeWhile is_blank line) \<subseteq> {SPC, TAB}"
    by (auto dest: set_takeWhileD simp: is_blank_def)
  ultimately show ?thesis using c that by blast
qed

lemma record_line_no_fault:
  assumes idle: "name_end s = 0" "value_end s = 0"
    and fits: "length line < length (property_str s)"
    and cap: "length (property_str s) < 2 ^ 64"
    and line: "line = ws1 @ name @ ws2 @ [sep] @ rest"
    and ws: "set ws1 \<subseteq> {SPC, TAB}" "set ws2 \<subseteq> {SPC, TAB}"
    and sep: "sep = CHR '':'' \<or> sep = CHR ''=''"
    and name: "name \<noteq> []" "hd name \<notin> {SPC, TAB, NUL, CHR ''!'', CHR ''#''}"
      "\<not> is_blank (last name)" "\<forall>c\<in>set name. c \<noteq> CHR '':'' \<and> c \<noteq> CHR ''=''"
  shows "aeron_properties_parse_line handler clientd s line \<noteq> Fault k"
proof -
  let ?n = "length name"
  define b1 where "b1 = name @ replicate (Suc (length ws2)) NUL
                    @ drop (Suc (length name + length ws2)) (property_str s)"
  define s1 where "s1 = s\<lparr>property_str := b1, name_end := int ?n, value_end := int ?n + 1\<rparr>"
  define vs where "vs = Suc (length ws1 + length name + length ws2)"
  let ?vs2 = "aeron_next_non_whitespace line vs (size_pred (length line))"
  note enter = parse_line_record_enter [OF assms b1_def s1_def vs_def, of handler clientd]
  have len: "length line = length ws1 + ?n + length ws2 + 1 + length rest" using line by simp
  have b1len: "length b1 = length (property_str s)" using fits len by (simp add: b1_def)
  have b1n: "b1 ! ?n = NUL" by (simp add: b1_def nth_append)
  have n0: "0 < ?n" using name(1) by simp
  have n1: "Suc ?n < length b1" using fits len b1len by simp
  show ?thesis
  proof (cases "- 1 = ?vs2")
    case True
    have inb: "in_bounds b1 (int ?n + 1)" using n1 by (simp add: in_bounds_def)
    let ?s2 = "s1\<lparr>property_str := poke b1 (int ?n + 1) NUL, value_end := int ?n + 1 + 1\<rparr>"
    have pk: "poke b1 (int ?n + 1) NUL = b1[Suc ?n := NUL]"
      by (simp add: poke_def nat_add_distrib)
    have "emit handler clientd ?s2 \<noteq> Fault k"
    proof (rule emit_no_fault [where j = "int ?n + 1"])
      show "0 \<le> name_end ?s2" by (simp add: s1_def)
      show "name_end ?s2 < int ?n + 1" by (simp add: s1_def)
      show "int ?n + 1 < int (length (property_str ?s2))" using n1 by (simp add: pk)
      show "property_str ?s2 ! nat (name_end ?s2) = NUL" using b1n by (simp add: pk s1_def)
      show "property_str ?s2 ! nat (int ?n + 1) = NUL"
        using n1 by (simp add: pk nat_add_distrib)
    qed
    then show ?thesis unfolding enter using True inb by simp
  next
    case False
    have vsle: "vs \<le> length line" using len by (simp add: vs_def)
    have "?vs2 = int (vs + length (takeWhile is_blank (drop vs line)))"
      using False next_non_whitespace_line [OF vsle] by (auto split: if_splits)
    then have ge: "vs \<le> nat ?vs2" by simp
    have "accumulate handler clientd s1 line (nat ?vs2) \<noteq> Fault k"
    proof (rule accumulate_no_fault)
      show "0 < name_end s1" using n0 by (simp add: s1_def)
      show "name_end s1 < value_end s1" by (simp add: s1_def)
      show "property_str s1 ! nat (name_end s1) = NUL" using b1n by (simp add: s1_def)
      have "length line - nat ?vs2 \<le> length line - vs" using ge by simp
      also have "\<dots> = length rest" using len by (simp add: vs_def)
      finally have "?n + 1 + (length line - nat ?vs2) < length b1"
        using len fits b1len by simp
      then show "value_end s1 + int (length line - nat ?vs2) < int (length (property_str s1))"
        by (simp add: s1_def)
    qed
    then show ?thesis unfolding enter using False by simp
  qed
qed

lemma parse_line_fault_only_below:
  assumes inv: "parser_inv s"
    and fits: "int (length line) < int (length (property_str s)) - value_end s"
    and cap: "length (property_str s) < 2 ^ 64"
    and fault: "aeron_properties_parse_line handler clientd s line = Fault k"
  shows "k = - 1 \<and> name_end s = 0
         \<and> (\<exists>ws sep rest. line = ws @ sep # rest \<and> ws \<noteq> [] \<and> set ws \<subseteq> {SPC, TAB}
                \<and> (sep = CHR '':'' \<or> sep = CHR ''=''))"
proof -
  have ve0: "0 \<le> value_end s" using inv by (auto simp: parser_inv_def)
  then obtain ve where ve: "value_end s = int ve" by (cases "value_end s") auto
  have room: "ve + length line < length (property_str s)" using fits ve by simp
  have nofit: "\<not> int (length line) \<ge> (int (length (property_str s)) - value_end s) mod 2 ^ 64"
    using fits_buffer [OF ve room cap] .
  let ?vs = "aeron_next_non_whitespace line 0 (size_pred (length line))"
  have nocomment: "\<not> (- 1 = ?vs \<or> CHR ''!'' = line_at line (nat ?vs)
                       \<or> CHR ''#'' = line_at line (nat ?vs))"
    using fault nofit by (auto simp: aeron_properties_parse_line_def Let_def split: if_splits)
  show ?thesis
  proof (cases "0 < name_end s")
    case True
    with inv have inv': "name_end s < value_end s" "property_str s ! nat (name_end s) = NUL"
      by (auto simp: parser_inv_def)
    have "accumulate handler clientd s line (nat ?vs) = Fault k"
      using fault nofit nocomment True
      by (simp add: aeron_properties_parse_line_def Let_def)
    moreover have "accumulate handler clientd s line (nat ?vs) \<noteq> Fault k"
      using True inv' fits by (intro accumulate_no_fault) simp_all
    ultimately show ?thesis by simp
  next
    case False
    with inv have idle: "name_end s = 0" "value_end s = 0" by (auto simp: parser_inv_def)
    have fits': "length line < length (property_str s)" using fits idle by simp
    from nocomment obtain ws c cs where l: "line = ws @ c # cs" and ws: "set ws \<subseteq> {SPC, TAB}"
      and c: "c \<noteq> SPC" "c \<noteq> TAB" "c \<noteq> NUL"
      using first_non_blank_split [of line] by metis
    have cursor: "?vs = int (length ws)" and at: "line_at line (length ws) = c"
      using first_non_blank [OF l ws c] by simp_all
    have c': "c \<noteq> CHR ''!''" "c \<noteq> CHR ''#''" using nocomment cursor at by auto
    show ?thesis
    proof (cases "c = CHR '':'' \<or> c = CHR ''=''")
      case sepc: True
      show ?thesis
      proof (cases "ws = []")
        case True
        then have "aeron_properties_parse_line handler clientd s line \<noteq> Fault k"
          using parse_line_separator_first [OF idle fits' cap _ sepc, where rest = cs
              and handler = handler and clientd = clientd] l
          by simp
        then show ?thesis using fault by simp
      next
        case False
        have dr: "drop (length ws) line = [c] @ cs" using l by simp
        have "property_str s \<noteq> []" using fits' by auto
        then have "name_loop (ws @ [c] @ cs) (length ws) ([c] @ cs) s = Inl (- 1)"
          using idle(1) ws False sepc by (intro name_loop_underflow) simp_all
        then have "name_loop line (length ws) ([c] @ cs) s = Inl (- 1)" using l by simp
        then have "aeron_properties_parse_line handler clientd s line = Fault (- 1)"
          using nofit idle cursor at c c' dr
          by (simp add: aeron_properties_parse_line_def Let_def)
        then have "k = - 1" using fault by simp
        then show ?thesis using idle l False ws sepc by blast
      qed
    next
      case nosepc: False
      have "aeron_properties_parse_line handler clientd s line \<noteq> Fault k"
      proof (cases "c # cs" rule: split_at_separator)
        case 1
        then show ?thesis
          using parse_line_no_separator [OF idle fits' cap l ws _ 1, where handler = handler
              and clientd = clientd] c c'
          by simp
      next
        case (2 pre sep post)
        have pre: "pre \<noteq> []" "hd pre = c"
          using 2(1,2) nosepc by (cases pre; auto)+
        then have "\<not> is_blank (hd pre)" using c by (simp add: is_blank_def)
        with pre(1) obtain name ws2 where nm: "pre = name @ ws2" "set ws2 \<subseteq> {SPC, TAB}"
          "name \<noteq> []" "\<not> is_blank (last name)"
          by (rule split_trailing_blanks)
        have hd: "hd name = c" using nm(1,3) pre(2) by (cases name) auto
        have l': "line = ws @ name @ ws2 @ [sep] @ post" using l 2(1) nm(1) by simp
        show ?thesis
        proof (rule record_line_no_fault [OF idle fits' cap l' ws nm(2) 2(2) nm(3) _ nm(4)])
          show "hd name \<notin> {SPC, TAB, NUL, CHR ''!'', CHR ''#''}" using hd c c' by simp
          show "\<forall>c\<in>set name. c \<noteq> CHR '':'' \<and> c \<noteq> CHR ''=''" using 2(3) nm(1) by simp
        qed
      qed
      then show ?thesis using fault by simp
    qed
  qed
qed

subsection \<open>The loader, line by line\<close>

text \<open>
  What the loop does with a raw line of at least two bytes that ends in a
  newline, with one that does not end in a newline, and at the end of the input;
  the result is \<open>0\<close> exactly when no error was recorded, and the file is closed
  whenever it was opened.
\<close>

lemma c_line_whole: "NUL \<notin> set raw \<Longrightarrow> takeWhile (\<lambda>c. c \<noteq> NUL) raw = raw"
  by (induction raw) auto

lemma read_lines_unterminated:
  assumes "fgets n content = Some (raw, rest)" and "NUL \<notin> set raw"
    and "raw \<noteq> []" and "last raw \<noteq> LF"
  shows "read_lines n read_fails content lineno state e
           = Some (- 1, Some (LineTooLongOrNoNewline lineno), e)"
  using assms by (subst read_lines.simps) (auto simp: c_line_whole Let_def)

lemma read_lines_line:
  assumes "fgets n content = Some (body @ [LF], rest)" and "NUL \<notin> set body"
    and "body \<noteq> []"
  shows "read_lines n read_fails content lineno state e
           = (case aeron_properties_parse_line (aeron_properties_setenv_property n) e state
                     (if CR = last body then butlast body else body) of
                Fault k \<Rightarrow> None
              | HandlerFault \<Rightarrow> None
              | Returned r err state' e' em \<Rightarrow>
                  if r < 0 then Some (- 1, Some (LineMalformed lineno), e')
                  else read_lines n read_fails rest (lineno + 1) state' e')"
proof -
  have "takeWhile (\<lambda>c. c \<noteq> NUL) (body @ [LF]) = body @ [LF]"
    using assms(2) by (intro c_line_whole) simp
  then show ?thesis
    using assms(1,3) by (subst read_lines.simps) (simp add: Let_def)
qed

lemma read_lines_end:
  assumes "content = []"
  shows "read_lines n read_fails content lineno state e
           = (if read_fails then Some (- 1, Some ErrorReadingFile, e) else Some (0, None, e))"
  using assms by (subst read_lines.simps) (simp add: fgets_def)

lemma read_lines_result:
  assumes "read_lines n read_fails content lineno state e = Some (rc, err, e')"
  shows "(rc = 0 \<and> err = None) \<or> (rc = - 1 \<and> err \<noteq> None)"
  using assms
proof (induction n read_fails content lineno state e rule: read_lines.induct)
  case (1 max_length read_fails content lineno state e)
  show ?case
  proof (cases "fgets max_length content")
    case None
    then show ?thesis
      using "1.prems" by (subst (asm) read_lines.simps) (auto split: if_splits)
  next
    case (Some p)
    obtain raw rest where p: "p = (raw, rest)" by (cases p)
    let ?line = "takeWhile (\<lambda>c. c \<noteq> NUL) raw"
    let ?line1 = "butlast ?line"
    let ?line2 = "if CR = last ?line1 then butlast ?line1 else ?line1"
    from "1.prems" Some p have ne: "?line \<noteq> []"
      by (subst (asm) read_lines.simps) (auto simp: Let_def split: if_splits)
    show ?thesis
    proof (cases "LF = last ?line")
      case False
      then show ?thesis
        using "1.prems" Some p ne
        by (subst (asm) read_lines.simps) (auto simp: Let_def split: if_splits)
    next
      case True
      from "1.prems" Some p ne True have ne1: "?line1 \<noteq> []"
        by (subst (asm) read_lines.simps) (auto simp: Let_def split: if_splits)
      from "1.prems" Some p ne True ne1 obtain r er st' e1 em
        where run: "aeron_properties_parse_line (aeron_properties_setenv_property max_length)
                      e state ?line2 = Returned r er st' e1 em"
          and res: "(if r < 0 then Some (- 1, Some (LineMalformed lineno), e1)
                     else read_lines max_length read_fails rest (lineno + 1) st' e1)
                    = Some (rc, err, e')"
        by (subst (asm) read_lines.simps) (auto simp: Let_def split: if_splits outcome.splits)
      show ?thesis
      proof (cases "r < 0")
        case True
        then show ?thesis using res by auto
      next
        case False
        then have "read_lines max_length read_fails rest (lineno + 1) st' e1 = Some (rc, err, e')"
          using res by simp
        then show ?thesis
          using "1.IH" [OF Some p [symmetric] refl ne True refl ne1 refl run False] by simp
      qed
    qed
  qed
qed

lemma file_load_result:
  assumes "aeron_properties_file_load n garbage file e = Loaded rc err closed e'"
  shows "((rc = 0 \<and> err = None) \<or> (rc = - 1 \<and> err \<noteq> None)) \<and> (closed \<longleftrightarrow> file \<noteq> None)"
proof (cases "file")
  case None
  then show ?thesis using assms by (auto simp: aeron_properties_file_load_def)
next
  case (Some p)
  obtain content read_fails where p: "p = (content, read_fails)" by (cases p)
  let ?init = "aeron_properties_parse_init
                 \<lparr>property_str = take n (garbage @ replicate n NUL), name_end = 0, value_end = 0\<rparr>"
  have "read_lines n read_fails content 1 ?init e = Some (rc, err, e') \<and> closed"
    using assms Some p
    by (simp add: aeron_properties_file_load_def split: option.splits prod.splits
        del: read_lines.simps)
  then show ?thesis using read_lines_result Some by blast
qed

subsection \<open>The first fragment of a continued record\<close>

text \<open>
  A new-record line that ends in a backslash: after the name and the separator,
  the value bytes up to the backslash are copied behind the name's null, and the
  state is left waiting for the next fragment.
\<close>

lemma parse_line_first_fragment:
  assumes idle: "name_end s = 0" "value_end s = 0"
    and fits: "length line < length (property_str s)"
    and cap: "length (property_str s) < 2 ^ 64"
    and line: "line = ws1 @ name @ ws2 @ [sep] @ ws3 @ body @ [BSL]"
    and ws: "set ws1 \<subseteq> {SPC, TAB}" "set ws2 \<subseteq> {SPC, TAB}" "set ws3 \<subseteq> {SPC, TAB}"
    and sep: "sep = CHR '':'' \<or> sep = CHR ''=''"
    and name: "name \<noteq> []" "hd name \<notin> {SPC, TAB, NUL, CHR ''!'', CHR ''#''}"
      "\<not> is_blank (last name)" "\<forall>c\<in>set name. c \<noteq> CHR '':'' \<and> c \<noteq> CHR ''=''"
    and body: "body = [] \<or> hd body \<notin> {SPC, TAB, NUL}"
    and b1: "b1 = name @ replicate (Suc (length ws2)) NUL
                    @ drop (Suc (length name + length ws2)) (property_str s)"
  shows "aeron_properties_parse_line handler clientd s line
           = Returned 0 None
               (s\<lparr>property_str := take (Suc (length name)) b1 @ body
                                      @ drop (Suc (length name) + length body) b1,
                  name_end := int (length name),
                  value_end := int (length name) + 1 + int (length body)\<rparr>)
               clientd None"
proof -
  let ?n = "length name"
  define s1 where "s1 = s\<lparr>property_str := b1, name_end := int ?n, value_end := int ?n + 1\<rparr>"
  define vs where "vs = Suc (length ws1 + length name + length ws2)"
  let ?vs2 = "aeron_next_non_whitespace line vs (size_pred (length line))"
  have l: "line = ws1 @ name @ ws2 @ [sep] @ (ws3 @ body @ [BSL])" using line by simp
  note enter = parse_line_record_enter [OF idle fits cap l ws(1,2) sep name b1 s1_def vs_def,
      of handler clientd]
  have len: "length line = vs + length ws3 + length body + 1" using line by (simp add: vs_def)
  have b1len: "length b1 = length (property_str s)" using fits len by (simp add: b1 vs_def)
  have vsle: "vs \<le> length line" using len by simp
  have drvs: "drop vs line = ws3 @ body @ [BSL]" using line by (simp add: vs_def)
  obtain c cs where ccs: "body @ [BSL] = c # cs" and c: "c \<noteq> SPC" "c \<noteq> TAB" "c \<noteq> NUL"
    using body by (cases body) auto
  have nb: "\<not> is_blank c" using c by (simp add: is_blank_def)
  have "dropWhile is_blank (drop vs line) = c # cs" "takeWhile is_blank (drop vs line) = ws3"
    using drvs ws(3) ccs nb by (simp_all add: blank_prefix_scan)
  then have vs2: "?vs2 = int (vs + length ws3)"
    using c(3) by (simp add: next_non_whitespace_line [OF vsle])
  have ne: "line \<noteq> []" "last line = BSL" "vs + length ws3 < length line"
    using line len by simp_all
  have bd: "length line - (vs + length ws3) - 1 = length body"
    "take (length body) (drop (vs + length ws3) line) = body"
    using line by (simp_all add: vs_def)
  have ve: "value_end s1 = int (Suc ?n)" by (simp add: s1_def)
  have acc: "accumulate handler clientd s1 line (vs + length ws3)
      = Returned 0 None
          (s1\<lparr>property_str := take (Suc ?n) (property_str s1)
                   @ take (length line - (vs + length ws3) - 1) (drop (vs + length ws3) line)
                   @ drop (Suc ?n + (length line - (vs + length ws3) - 1)) (property_str s1),
             value_end := value_end s1 + int (length line - (vs + length ws3) - 1)\<rparr>)
          clientd None"
  proof (rule accumulate_continues [OF ne ve])
    show "Suc ?n + (length line - (vs + length ws3) - 1) \<le> length (property_str s1)"
      unfolding bd using fits len b1len by (simp add: s1_def vs_def)
  qed
  have "aeron_properties_parse_line handler clientd s line
          = accumulate handler clientd s1 line (vs + length ws3)"
    unfolding enter vs2 by (simp add: nat_add_distrib)
  then show ?thesis
    unfolding acc bd by (simp add: s1_def)
qed

subsection \<open>Fragments that end in a backslash\<close>

text \<open>
  Claim C3 as stated, for every line that ends in a backslash and is not a
  comment or blank, does not hold. The bound check counts the whole line, blanks
  and backslash included: with \<^verbatim>\<open>value_end\<close> \<open>12\<close> of \<open>16\<close> the fragment
  \<open>CDE\<close> with a backslash is rejected as too long, though its three value
  bytes would fit. And in the new-record state a line without a separator is
  malformed, backslash or not.
\<close>

theorem parse_line_fragment_rejected:
  "aeron_properties_parse_line recording_handler []
     \<lparr>property_str = ''N'' @ [NUL] @ ''ABCDEFGHIJ'' @ ''xxxx'', name_end = 1, value_end = 12\<rparr>
     (''CDE'' @ [BSL])
   = Returned (- 1) (Some LineTooLong)
       \<lparr>property_str = ''N'' @ [NUL] @ ''ABCDEFGHIJ'' @ ''xxxx'', name_end = 1, value_end = 12\<rparr>
       [] None
   \<and> aeron_properties_parse_line recording_handler []
     \<lparr>property_str = ''xxxxxxxxxxxxxxxx'', name_end = 0, value_end = 0\<rparr>
     (''broken'' @ [BSL])
   = Returned (- 1) (Some MalformedLine)
       \<lparr>property_str = ''broken'' @ [BSL] @ ''xxxxxxxxx'', name_end = 0, value_end = 0\<rparr>
       [] None"
  by code_simp

text \<open>
  Claim C3, amended. A line that ends in a backslash, whose length is less than
  \<open>capacity - value_end\<close>, and whose value bytes (between the leading blanks
  and the backslash) do not start with a blank or a null, is a fragment of a
  continued value. In the continuation state, unless the first value byte is
  \<open>!\<close> or \<open>#\<close>, the call copies exactly the value bytes, without the leading
  blanks and without the backslash, into the buffer at \<^verbatim>\<open>value_end\<close>,
  advances \<^verbatim>\<open>value_end\<close> by their number and returns \<open>0\<close> without calling
  the handler. In the new-record state, after a non-empty name and a separator,
  it does the same behind the name's null: the buffer then starts with the name,
  a null and the value bytes, and \<^verbatim>\<open>value_end\<close> is the length of the name
  plus one plus their number. When the backslash is the first byte after the
  blanks, nothing is copied and \<^verbatim>\<open>value_end\<close> does not move: the count is
  the length of a list, never negative. Feeding \<open>N=AB\<close> with a backslash after
  it and then \<open>  CD\<close> hands \<open>(N, ABCD)\<close> to the handler. The capacity is below
  \<open>2 ^ 31\<close>, so that the offsets are those of the C \<^verbatim>\<open>int\<close>s.
\<close>

theorem parse_line_continuation:
  assumes ve: "value_end s = int ve"
    and fits: "ve + length line < length (property_str s)"
    and cap: "length (property_str s) < 2 ^ 31"
    and ws: "set ws \<subseteq> {SPC, TAB}"
    and body: "body = [] \<or> hd body \<notin> {SPC, TAB, NUL}"
  shows
    "(0 < name_end s \<and> line = ws @ body @ [BSL]
        \<and> (body = [] \<or> hd body \<notin> {CHR ''!'', CHR ''#''})
      \<longrightarrow> aeron_properties_parse_line handler clientd s line
           = Returned 0 None
               (s\<lparr>property_str := take ve (property_str s) @ body
                                      @ drop (ve + length body) (property_str s),
                  value_end := value_end s + int (length body)\<rparr>)
               clientd None)
     \<and> (name_end s = 0 \<and> ve = 0 \<and> line = ws1 @ name @ ws2 @ [sep] @ ws @ body @ [BSL]
        \<and> set ws1 \<subseteq> {SPC, TAB} \<and> set ws2 \<subseteq> {SPC, TAB}
        \<and> (sep = CHR '':'' \<or> sep = CHR ''='')
        \<and> name \<noteq> [] \<and> hd name \<notin> {SPC, TAB, NUL, CHR ''!'', CHR ''#''}
        \<and> last name \<notin> {SPC, TAB} \<and> (\<forall>c\<in>set name. c \<noteq> CHR '':'' \<and> c \<noteq> CHR ''='')
      \<longrightarrow> (\<exists>s'. aeron_properties_parse_line handler clientd s line
                   = Returned 0 None s' clientd None
             \<and> name_end s' = int (length name)
             \<and> value_end s' = int (length name) + 1 + int (length body)
             \<and> take (length name + 1 + length body) (property_str s') = name @ NUL # body
             \<and> length (property_str s') = length (property_str s)))
     \<and> aeron_properties_parse_line recording_handler []
           \<lparr>property_str = ''xxxxxxxxxxxxxxxx'', name_end = 0, value_end = 0\<rparr>
           (''N=AB'' @ [BSL])
         = Returned 0 None
             \<lparr>property_str = ''N'' @ [NUL] @ ''AB'' @ ''xxxxxxxxxxxx'',
              name_end = 1, value_end = 4\<rparr> [] None
     \<and> aeron_properties_parse_line recording_handler []
           \<lparr>property_str = ''N'' @ [NUL] @ ''AB'' @ ''xxxxxxxxxxxx'',
            name_end = 1, value_end = 4\<rparr> ''  CD''
         = Returned 0 None
             \<lparr>property_str = ''N'' @ [NUL] @ ''ABCD'' @ [NUL] @ ''xxxxxxxxx'',
              name_end = 0, value_end = 0\<rparr>
             [(''N'', ''ABCD'')] (Some (''N'', ''ABCD''))"
    (is "?next \<and> ?first \<and> ?ex1 \<and> ?ex2")
proof -
  have "(2::nat) ^ 31 < 2 ^ 64" by simp
  with cap have cap64: "length (property_str s) < 2 ^ 64" by (rule less_trans)
  show ?thesis
  proof (intro conjI)
  show ?next
  proof (intro impI, elim conjE)
    assume "0 < name_end s" "line = ws @ body @ [BSL]"
      "body = [] \<or> hd body \<notin> {CHR ''!'', CHR ''#''}"
    moreover from this(3) body
    have "body = [] \<or> hd body \<notin> {SPC, TAB, NUL, CHR ''!'', CHR ''#''}" by auto
    ultimately show "aeron_properties_parse_line handler clientd s line
           = Returned 0 None
               (s\<lparr>property_str := take ve (property_str s) @ body
                                      @ drop (ve + length body) (property_str s),
                  value_end := value_end s + int (length body)\<rparr>)
               clientd None"
      using ve fits cap64 ws by (intro parse_line_next_fragment)
  qed
next
  show ?first
  proof (intro impI, elim conjE)
    let ?n = "length name"
    define b1 where "b1 = name @ replicate (Suc (length ws2)) NUL
                    @ drop (Suc (length name + length ws2)) (property_str s)"
    let ?s' = "s\<lparr>property_str := take (Suc ?n) b1 @ body @ drop (Suc ?n + length body) b1,
                  name_end := int ?n, value_end := int ?n + 1 + int (length body)\<rparr>"
    assume h: "name_end s = 0" "ve = 0" "line = ws1 @ name @ ws2 @ [sep] @ ws @ body @ [BSL]"
      "set ws1 \<subseteq> {SPC, TAB}" "set ws2 \<subseteq> {SPC, TAB}" "sep = CHR '':'' \<or> sep = CHR ''=''"
      "name \<noteq> []" "hd name \<notin> {SPC, TAB, NUL, CHR ''!'', CHR ''#''}"
      "last name \<notin> {SPC, TAB}" "\<forall>c\<in>set name. c \<noteq> CHR '':'' \<and> c \<noteq> CHR ''=''"
    have idle: "value_end s = 0" using ve h(2) by simp
    have fits': "length line < length (property_str s)" using fits h(2) by simp
    have lastn: "\<not> is_blank (last name)" using h(9) by (simp add: is_blank_def)
    have run: "aeron_properties_parse_line handler clientd s line = Returned 0 None ?s' clientd None"
      using h(1) idle fits' cap64 h(3,4,5) ws h(6,7,8) lastn h(10) body b1_def
      by (rule parse_line_first_fragment)
    have len: "length line = length ws1 + ?n + length ws2 + 1 + length ws + length body + 1"
      using h(3) by simp
    have b1len: "length b1 = length (property_str s)" using fits' len by (simp add: b1_def)
    have tk: "take (Suc ?n) b1 = name @ [NUL]" by (simp add: b1_def)
    have room: "Suc ?n + length body \<le> length b1" using fits' len b1len by simp
    have "take (?n + 1 + length body) (property_str ?s') = name @ NUL # body"
      using tk by simp
    moreover have "length (property_str ?s') = length (property_str s)"
      using room b1len by simp
    ultimately show "\<exists>s'. aeron_properties_parse_line handler clientd s line
                   = Returned 0 None s' clientd None
             \<and> name_end s' = int (length name)
             \<and> value_end s' = int (length name) + 1 + int (length body)
             \<and> take (length name + 1 + length body) (property_str s') = name @ NUL # body
             \<and> length (property_str s') = length (property_str s)"
      using run by (intro exI [of _ ?s']) simp
  qed
next
  show ?ex1 by code_simp
next
  show ?ex2 by code_simp
qed
qed

theorem parse_line_continuation_witness:
  "aeron_properties_parse_line recording_handler []
     \<lparr>property_str = ''N'' @ [NUL] @ ''AB'' @ ''xxxxxxxxxxxx'', name_end = 1, value_end = 4\<rparr>
     (''  CD'' @ [BSL])
   = Returned 0 None
       \<lparr>property_str = ''N'' @ [NUL] @ ''ABCD'' @ ''xxxxxxxxxx'', name_end = 1, value_end = 6\<rparr>
       [] None
   \<and> aeron_properties_parse_line recording_handler []
     \<lparr>property_str = ''N'' @ [NUL] @ ''AB'' @ ''xxxxxxxxxxxx'', name_end = 1, value_end = 4\<rparr>
     (''  '' @ [BSL])
   = Returned 0 None
       \<lparr>property_str = ''N'' @ [NUL] @ ''AB'' @ ''xxxxxxxxxxxx'', name_end = 1, value_end = 4\<rparr>
       [] None
   \<and> (\<exists>s'. aeron_properties_parse_line recording_handler []
            \<lparr>property_str = ''xxxxxxxxxxxxxxxx'', name_end = 0, value_end = 0\<rparr>
            (''N = AB'' @ [BSL])
          = Returned 0 None s' [] None
        \<and> name_end s' = int (length ''N'')
        \<and> value_end s' = int (length ''N'') + 1 + int (length ''AB'')
        \<and> take (length ''N'' + 1 + length ''AB'') (property_str s') = ''N'' @ NUL # ''AB''
        \<and> length (property_str s') = length ''xxxxxxxxxxxxxxxx'')"
proof -
  let ?s = "\<lparr>property_str = ''N'' @ [NUL] @ ''AB'' @ ''xxxxxxxxxxxx'', name_end = 1, value_end = 4\<rparr>"
  let ?z = "\<lparr>property_str = ''xxxxxxxxxxxxxxxx'', name_end = 0, value_end = 0\<rparr>"
  have a: "aeron_properties_parse_line recording_handler [] ?s (''  CD'' @ [BSL])
      = Returned 0 None
          \<lparr>property_str = ''N'' @ [NUL] @ ''ABCD'' @ ''xxxxxxxxxx'', name_end = 1, value_end = 6\<rparr>
          [] None"
    using parse_line_continuation [where s = ?s and ve = 4 and line = "''  CD'' @ [BSL]"
        and ws = "''  ''" and body = "''CD''" and handler = recording_handler and clientd = "[]"]
    by simp
  have b: "aeron_properties_parse_line recording_handler [] ?s (''  '' @ [BSL])
      = Returned 0 None ?s [] None"
    using parse_line_continuation [where s = ?s and ve = 4 and line = "''  '' @ [BSL]"
        and ws = "''  ''" and body = "[]" and handler = recording_handler and clientd = "[]"]
    by simp
  have c: "\<exists>s'. aeron_properties_parse_line recording_handler [] ?z (''N = AB'' @ [BSL])
          = Returned 0 None s' [] None
        \<and> name_end s' = int (length ''N'')
        \<and> value_end s' = int (length ''N'') + 1 + int (length ''AB'')
        \<and> take (length ''N'' + 1 + length ''AB'') (property_str s') = ''N'' @ NUL # ''AB''
        \<and> length (property_str s') = length ''xxxxxxxxxxxxxxxx''"
    using parse_line_continuation [where s = ?z and ve = 0 and line = "''N = AB'' @ [BSL]"
        and ws = "'' ''" and body = "''AB''" and handler = recording_handler and clientd = "[]"
        and ?ws1.0 = "[]" and name = "''N''" and ?ws2.0 = "'' ''" and sep = "CHR ''=''"]
    by simp
  from a b c show ?thesis by (intro conjI)
qed

end
